theory Spec2Isabelle
  imports Main "HOL-Library.Word" "HOL-Library.Monad_Syntax"
begin

section \<open>The download registry of jellyfin-expo: src/stores/DownloadStore.ts\<close>

subsection \<open>Strings\<close>

text \<open>
  A JavaScript string is a sequence of 16-bit code units. String literals of the source
  are written \<open>js ''...''\<close>.
\<close>

type_synonym jstring = "16 word list"

definition js :: "string \<Rightarrow> jstring" where
  "js s = map of_char s"

subsection \<open>Records: DownloadItem, DownloadStatus, DownloadModel\<close>

text \<open>
  Modelled from the spec: the type DownloadItem (src/models/DownloadModel) is missing.
  The spec (section 3) describes it as the minimal remote-item descriptor: id, owning
  server id, display name; \<open>deserialize\<close> (lines 73-79) builds one with exactly the
  properties Id, ServerId and Name, the last one possibly undefined.
\<close>

record DownloadItem =
  Id :: jstring
  ServerId :: jstring
  Name :: "jstring option"

text \<open>
  Modelled from the spec: the enum DownloadStatus
  (src/features/downloads/constants/DownloadStatus) is missing. The spec (section 3) gives
  its members; the source names \<open>Downloading\<close> and \<open>Complete\<close>.
\<close>

datatype DownloadStatus = Queued | Downloading | Complete | Failed

record DownloadModel =
  item :: DownloadItem
  serverUrl :: jstring
  apiKey :: jstring
  filename :: jstring
  downloadUrl :: jstring
  status :: DownloadStatus
  canPlay :: bool
  extension :: "jstring option"
  isNew :: bool

text \<open>
  Modelled from the spec: the class DownloadModel (src/models/DownloadModel) is missing.
  Its constructor takes the five arguments of line 81-87. A new record starts in
  \<open>Queued\<close> (spec 4.1, "Queued (initial)") and is new (spec 3, "true until the user has
  acknowledged"); \<open>canPlay\<close> and \<open>extension\<close> are what \<open>deserialize\<close> assigns
  afterwards in every case.
\<close>

definition new_DownloadModel ::
  "DownloadItem \<Rightarrow> jstring \<Rightarrow> jstring \<Rightarrow> jstring \<Rightarrow> jstring \<Rightarrow> DownloadModel" where
  "new_DownloadModel i url api file dl =
     \<lparr>item = i, serverUrl = url, apiKey = api, filename = file, downloadUrl = dl,
      status = Queued, canPlay = True, extension = None, isNew = True\<rparr>"

text \<open>
  Modelled from the spec: the getter \<open>key\<close> of the missing class DownloadModel. The spec
  (section 3) says it is derived deterministically from (serverId, itemId); the two are
  joined here. The theorems below hold whatever the derivation is; the examples use only
  that the two example records have different keys.
\<close>

definition key :: "DownloadModel \<Rightarrow> jstring" where
  "key d = ServerId (item d) @ js ''_'' @ Id (item d)"

subsection \<open>JavaScript's Map\<close>

text \<open>
  The contents of a \<open>Map<string, DownloadModel>\<close>: its entries in insertion order
  (\<open>Map.prototype.entries\<close>). \<open>set\<close> on a key that is present replaces the value
  where it stands; on a new key it appends. A Map holds a key at most once: \<open>distinct_keys\<close>.
\<close>

type_synonym DownloadMap = "(jstring \<times> DownloadModel) list"

definition has :: "DownloadMap \<Rightarrow> jstring \<Rightarrow> bool" where
  "has m k = (map_of m k \<noteq> None)"

fun set_entry :: "DownloadMap \<Rightarrow> jstring \<Rightarrow> DownloadModel \<Rightarrow> DownloadMap" where
  "set_entry [] k v = [(k, v)]"
| "set_entry (e # m) k v = (if fst e = k then (k, v) # m else e # set_entry m k v)"

definition delete_entry :: "DownloadMap \<Rightarrow> jstring \<Rightarrow> DownloadMap" where
  "delete_entry m k = filter (\<lambda>e. fst e \<noteq> k) m"

definition distinct_keys :: "DownloadMap \<Rightarrow> bool" where
  "distinct_keys m = distinct (map fst m)"

subsection \<open>The store\<close>

text \<open>
  Map instances are objects: the state holds a reference to one, and a caller who read
  \<open>downloads\<close> earlier holds a reference too. \<open>heap\<close> is the list of the Map
  instances allocated so far, a reference is an index into it. \<open>commits\<close> lists the
  references installed by the calls of zustand's \<open>_set\<close>, in order: each call replaces
  the state, and the persist and logger middlewares and the subscribers run on it.
\<close>

record Store =
  heap :: "DownloadMap list"
  downloads :: nat
  commits :: "nat list"

text \<open>\<open>initialState\<close> (line 135): one empty Map, allocated when the module loads.\<close>

definition initialStore :: Store where
  "initialStore = \<lparr>heap = [[]], downloads = 0, commits = []\<rparr>"

text \<open>\<open>new Map(init)\<close>: a fresh instance with a copy of the entries.\<close>

definition new_Map :: "DownloadMap \<Rightarrow> Store \<Rightarrow> nat \<times> Store" where
  "new_Map init st = (length (heap st), st\<lparr>heap := heap st @ [init]\<rparr>)"

text \<open>\<open>m.has(k)\<close>, \<open>m.set(k, v)\<close> (returns \<open>m\<close>) and \<open>m.delete(k)\<close> (returns
  whether the key was there); the last two change the instance in place.\<close>

definition Map_has :: "nat \<Rightarrow> jstring \<Rightarrow> Store \<Rightarrow> bool" where
  "Map_has r k st = has (heap st ! r) k"

definition Map_set :: "nat \<Rightarrow> jstring \<Rightarrow> DownloadModel \<Rightarrow> Store \<Rightarrow> nat \<times> Store" where
  "Map_set r k v st = (r, st\<lparr>heap := (heap st)[r := set_entry (heap st ! r) k v]\<rparr>)"

definition Map_delete :: "nat \<Rightarrow> jstring \<Rightarrow> Store \<Rightarrow> bool \<times> Store" where
  "Map_delete r k st =
     (has (heap st ! r) k, st\<lparr>heap := (heap st)[r := delete_entry (heap st ! r) k]\<rparr>)"

text \<open>zustand's \<open>_get().downloads\<close> and \<open>_set({ downloads })\<close>.\<close>

definition priv_get :: "Store \<Rightarrow> nat" where
  "priv_get st = downloads st"

definition priv_set :: "nat \<Rightarrow> Store \<Rightarrow> Store" where
  "priv_set r st = st\<lparr>downloads := r, commits := commits st @ [r]\<rparr>"

text \<open>The entries of the state's current Map.\<close>

definition entries :: "Store \<Rightarrow> DownloadMap" where
  "entries st = heap st ! downloads st"

text \<open>The actions (lines 146-174). \<open>add\<close>, \<open>update\<close> and \<open>reset\<close> return nothing
  (\<open>void\<close> in the type \<open>Actions\<close>, lines 22-29), \<open>delete\<close> returns a boolean.\<close>

definition set_action :: "nat option \<Rightarrow> Store \<Rightarrow> unit \<times> Store" where
  "set_action v st = ((), priv_set (case v of None \<Rightarrow> downloads st | Some r \<Rightarrow> r) st)"

definition getNewDownloadCount :: "Store \<Rightarrow> nat" where
  "getNewDownloadCount st = length (filter isNew (map snd (heap st ! priv_get st)))"

definition add :: "DownloadModel \<Rightarrow> Store \<Rightarrow> unit \<times> Store" where
  "add download st =
     (let downloads = priv_get st in
      if \<not> Map_has downloads (key download) st then
        (let (m, st1) = new_Map (heap st ! downloads) st;
             (m', st2) = Map_set m (key download) download st1
         in ((), priv_set m' st2))
      else ((), st))"

definition delete :: "DownloadModel \<Rightarrow> Store \<Rightarrow> bool \<times> Store" where
  "delete download st =
     (let (downloads, st1) = new_Map (heap st ! priv_get st) st;
          (isDeleted, st2) = Map_delete downloads (key download) st1
      in (isDeleted, if isDeleted then priv_set downloads st2 else st2))"

definition update :: "DownloadModel \<Rightarrow> Store \<Rightarrow> unit \<times> Store" where
  "update download st =
     (let (m, st1) = new_Map (heap st ! priv_get st) st;
          (downloads, st2) = Map_set m (key download) download st1
      in ((), priv_set downloads st2))"

definition reset :: "Store \<Rightarrow> unit \<times> Store" where
  "reset st = (let (m, st1) = new_Map [] st in ((), priv_set m st1))"

text \<open>
  A store as the program can hold it: the state's reference points to an allocated Map,
  and every Map holds each key once.
\<close>

definition wf_store :: "Store \<Rightarrow> bool" where
  "wf_store st = (downloads st < length (heap st) \<and> list_all distinct_keys (heap st))"

text \<open>A sequence of \<open>add\<close> calls.\<close>

fun add_all :: "DownloadModel list \<Rightarrow> Store \<Rightarrow> Store" where
  "add_all [] st = st"
| "add_all (d # ds) st = add_all ds (snd (add d st))"

subsection \<open>Example records\<close>

definition movie :: DownloadModel where
  "movie = new_DownloadModel \<lparr>Id = js ''i1'', ServerId = js ''s1'', Name = Some (js ''Movie'')\<rparr>
     (js ''http://srv'') (js ''tok'') (js ''movie.mp4'') (js ''http://srv/dl/i1'')"

definition song :: DownloadModel where
  "song = new_DownloadModel \<lparr>Id = js ''i2'', ServerId = js ''s1'', Name = None\<rparr>
     (js ''http://srv'') (js ''tok'') (js ''song.mp3'') (js ''http://srv/dl/i2'')"

definition one_movie :: Store where
  "one_movie = snd (add movie initialStore)"

section \<open>JSON\<close>

subsection \<open>JSON values\<close>

text \<open>
  What \<open>JSON.parse\<close> returns. \<open>JNum m e\<close> is the number \<open>m\<close> times ten to the
  \<open>e\<close>, exactly as the text writes it: the rounding to a binary64 value is not modelled.
  \<open>JObj\<close> lists the members in the order of the text; a name that occurs twice has the
  value of its last occurrence (\<open>get_prop\<close>).
\<close>

datatype json =
    JNull
  | JBool bool
  | JNum int int
  | JStr jstring
  | JArr "json list"
  | JObj "(jstring \<times> json) list"

definition get_prop :: "(jstring \<times> json) list \<Rightarrow> jstring \<Rightarrow> json option" where
  "get_prop ps k = map_of (rev ps) k"

subsection \<open>JSON.parse\<close>

text \<open>
  The grammar of ECMA-404 as ECMAScript's \<open>JSON.parse\<close> reads it, over code units.
  Each parser returns the value and the rest of the text, or \<open>None\<close> where
  \<open>JSON.parse\<close> throws a SyntaxError.
\<close>

definition is_ws :: "16 word \<Rightarrow> bool" where
  "is_ws c = (c = 0x20 \<or> c = 0x09 \<or> c = 0x0A \<or> c = 0x0D)"

definition skip_ws :: "jstring \<Rightarrow> jstring" where
  "skip_ws s = dropWhile is_ws s"

definition is_digit :: "16 word \<Rightarrow> bool" where
  "is_digit c = (0x30 \<le> c \<and> c \<le> 0x39)"

definition hex_digit :: "16 word \<Rightarrow> nat option" where
  "hex_digit c =
     (if 0x30 \<le> c \<and> c \<le> 0x39 then Some (unat c - 0x30)
      else if 0x41 \<le> c \<and> c \<le> 0x46 then Some (unat c - 0x37)
      else if 0x61 \<le> c \<and> c \<le> 0x66 then Some (unat c - 0x57)
      else None)"

definition hex4 :: "16 word \<Rightarrow> 16 word \<Rightarrow> 16 word \<Rightarrow> 16 word \<Rightarrow> 16 word option" where
  "hex4 a b c d =
     (case (hex_digit a, hex_digit b, hex_digit c, hex_digit d) of
        (Some x, Some y, Some z, Some w) \<Rightarrow>
          Some (of_nat (0x1000 * x + 0x100 * y + 0x10 * z + w))
      | _ \<Rightarrow> None)"

text \<open>The character after a backslash, other than \<open>u\<close>:
  \<open>"\<close>, \<open>\\<close>, \<open>/\<close>, \<open>b\<close>, \<open>f\<close>, \<open>n\<close>, \<open>r\<close>, \<open>t\<close>.\<close>

definition unescape :: "16 word \<Rightarrow> 16 word option" where
  "unescape e =
     (if e = 0x22 then Some 0x22
      else if e = 0x5C then Some 0x5C
      else if e = 0x2F then Some 0x2F
      else if e = 0x62 then Some 0x08
      else if e = 0x66 then Some 0x0C
      else if e = 0x6E then Some 0x0A
      else if e = 0x72 then Some 0x0D
      else if e = 0x74 then Some 0x09
      else None)"

definition cons_char :: "16 word \<Rightarrow> (jstring \<times> jstring) option \<Rightarrow> (jstring \<times> jstring) option" where
  "cons_char c p = (case p of None \<Rightarrow> None | Some (str, r) \<Rightarrow> Some (c # str, r))"

text \<open>The characters of a string, after the opening quote, up to the closing one.\<close>

fun parse_chars :: "jstring \<Rightarrow> (jstring \<times> jstring) option" where
  "parse_chars [] = None"
| "parse_chars (c # cs) =
     (if c = 0x22 then Some ([], cs)
      else if c = 0x5C then
        (case cs of
           [] \<Rightarrow> None
         | e # cs1 \<Rightarrow>
             if e = 0x75 then
               (case cs1 of
                  h1 # h2 # h3 # h4 # cs2 \<Rightarrow>
                    (case hex4 h1 h2 h3 h4 of
                       None \<Rightarrow> None
                     | Some u \<Rightarrow> cons_char u (parse_chars cs2))
                | _ \<Rightarrow> None)
             else
               (case unescape e of
                  None \<Rightarrow> None
                | Some u \<Rightarrow> cons_char u (parse_chars cs1)))
      else if c < 0x20 then None
      else cons_char c (parse_chars cs))"

text \<open>Numbers: \<open>-? (0 | [1-9][0-9]*) (. [0-9]+)? ([eE] [+-]? [0-9]+)?\<close>.\<close>

definition digits_val :: "jstring \<Rightarrow> nat" where
  "digits_val ds = foldl (\<lambda>n d. 10 * n + unat (d - 0x30)) 0 ds"

definition parse_int_part :: "jstring \<Rightarrow> jstring \<times> jstring" where
  "parse_int_part s =
     (case s of
        [] \<Rightarrow> ([], [])
      | c # cs \<Rightarrow> if c = 0x30 then ([c], cs) else (takeWhile is_digit s, dropWhile is_digit s))"

definition parse_fraction :: "jstring \<Rightarrow> (jstring \<times> jstring) option" where
  "parse_fraction s =
     (case s of
        [] \<Rightarrow> Some ([], [])
      | c # cs \<Rightarrow>
          if c = 0x2E then
            (if takeWhile is_digit cs = [] then None
             else Some (takeWhile is_digit cs, dropWhile is_digit cs))
          else Some ([], s))"

definition parse_exp_digits :: "bool \<Rightarrow> jstring \<Rightarrow> (int \<times> jstring) option" where
  "parse_exp_digits neg s =
     (if takeWhile is_digit s = [] then None
      else Some ((if neg then - int (digits_val (takeWhile is_digit s))
                  else int (digits_val (takeWhile is_digit s))),
                 dropWhile is_digit s))"

definition parse_exponent :: "jstring \<Rightarrow> (int \<times> jstring) option" where
  "parse_exponent s =
     (case s of
        [] \<Rightarrow> Some (0, [])
      | c # cs \<Rightarrow>
          if c = 0x65 \<or> c = 0x45 then
            (case cs of
               [] \<Rightarrow> None
             | d # ds \<Rightarrow>
                 if d = 0x2B then parse_exp_digits False ds
                 else if d = 0x2D then parse_exp_digits True ds
                 else parse_exp_digits False cs)
          else Some (0, s))"

definition parse_unsigned :: "bool \<Rightarrow> jstring \<Rightarrow> (json \<times> jstring) option" where
  "parse_unsigned neg s =
     (case parse_int_part s of
        (ip, s1) \<Rightarrow>
          if ip = [] then None
          else
            (case parse_fraction s1 of
               None \<Rightarrow> None
             | Some (fp, s2) \<Rightarrow>
                 (case parse_exponent s2 of
                    None \<Rightarrow> None
                  | Some (ex, s3) \<Rightarrow>
                      Some (JNum (if neg then - int (digits_val (ip @ fp))
                                  else int (digits_val (ip @ fp)))
                                 (ex - int (length fp)), s3))))"

definition parse_number :: "jstring \<Rightarrow> (json \<times> jstring) option" where
  "parse_number s =
     (case s of
        [] \<Rightarrow> None
      | c # cs \<Rightarrow> if c = 0x2D then parse_unsigned True cs else parse_unsigned False s)"

text \<open>The literals \<open>true\<close>, \<open>false\<close> and \<open>null\<close>, and the numbers.\<close>

definition parse_literal :: "jstring \<Rightarrow> (json \<times> jstring) option" where
  "parse_literal s =
     (if take 4 s = js ''true'' then Some (JBool True, drop 4 s)
      else if take 5 s = js ''false'' then Some (JBool False, drop 5 s)
      else if take 4 s = js ''null'' then Some (JNull, drop 4 s)
      else parse_number s)"

definition wrap :: "('a \<Rightarrow> json) \<Rightarrow> ('a \<times> jstring) option \<Rightarrow> (json \<times> jstring) option" where
  "wrap f p = (case p of None \<Rightarrow> None | Some (x, r) \<Rightarrow> Some (f x, r))"

definition cons_item :: "'a \<Rightarrow> ('a list \<times> jstring) option \<Rightarrow> ('a list \<times> jstring) option" where
  "cons_item x p = (case p of None \<Rightarrow> None | Some (xs, r) \<Rightarrow> Some (x # xs, r))"

lemma skip_ws_Cons_length: "skip_ws s = c # cs \<Longrightarrow> length cs < length s"
proof -
  assume a: "skip_ws s = c # cs"
  have "length (skip_ws s) \<le> length s"
    by (simp add: skip_ws_def length_dropWhile_le)
  with a show ?thesis by simp
qed

lemma cons_char_Some:
  "cons_char c p = Some (str, r) \<Longrightarrow> \<exists>str'. p = Some (str', r) \<and> str = c # str'"
  by (auto simp: cons_char_def split: option.splits)

lemma parse_chars_length: "parse_chars s = Some (str, r) \<Longrightarrow> length r < length s"
proof (induction s arbitrary: str r rule: parse_chars.induct)
  case 1
  then show ?case by simp
next
  case (2 c cs)
  show ?case
  proof (cases "c = 0x22")
    case True
    with "2.prems" show ?thesis by simp
  next
    case q: False
    show ?thesis
    proof (cases "c = 0x5C")
      case False
      with q "2.prems" obtain str' where "parse_chars cs = Some (str', r)"
        by (auto split: if_splits dest: cons_char_Some)
      with "2.IH"(3) [OF q False] q False "2.prems" show ?thesis
        by (fastforce split: if_splits)
    next
      case True
      show ?thesis
      proof (cases cs)
        case Nil
        with q True "2.prems" show ?thesis by simp
      next
        case (Cons e cs1)
        show ?thesis
        proof (cases "e = 0x75")
          case False
          with q True Cons "2.prems" obtain u str' where
            u: "unescape e = Some u" and "parse_chars cs1 = Some (str', r)"
            by (auto split: option.splits dest: cons_char_Some)
          with "2.IH"(2) [OF q True Cons False u] Cons show ?thesis
            by fastforce
        next
          case u: True
          with q True Cons "2.prems" obtain h1 h2 h3 h4 cs2 w str' where
            c: "cs1 = h1 # h2 # h3 # h4 # cs2" and h: "hex4 h1 h2 h3 h4 = Some w"
            and "parse_chars cs2 = Some (str', r)"
            by (auto split: option.splits list.splits dest: cons_char_Some)
          with "2.IH"(1) [OF q True Cons u _ _ _ _ h] Cons show ?thesis
            by fastforce
        qed
      qed
    qed
  qed
qed

text \<open>
  Values, the elements of an array after \<open>[\<close> and the members of an object after
  \<open>{\<close>. The two tests on the length of the rest never fail (\<open>parse_value_rest\<close>):
  they are there for the definition to be accepted as terminating.
\<close>

function parse_value :: "jstring \<Rightarrow> (json \<times> jstring) option"
  and parse_elements :: "jstring \<Rightarrow> (json list \<times> jstring) option"
  and parse_members :: "jstring \<Rightarrow> ((jstring \<times> json) list \<times> jstring) option"
where
  "parse_value s =
     (case skip_ws s of
        [] \<Rightarrow> None
      | c # cs \<Rightarrow>
          if c = 0x7B then
            (case skip_ws cs of
               [] \<Rightarrow> None
             | d # ds \<Rightarrow> if d = 0x7D then Some (JObj [], ds) else wrap JObj (parse_members cs))
          else if c = 0x5B then
            (case skip_ws cs of
               [] \<Rightarrow> None
             | d # ds \<Rightarrow> if d = 0x5D then Some (JArr [], ds) else wrap JArr (parse_elements cs))
          else if c = 0x22 then wrap JStr (parse_chars cs)
          else parse_literal (c # cs))"
| "parse_elements s =
     (case parse_value s of
        None \<Rightarrow> None
      | Some (v, r) \<Rightarrow>
          if length r < length s then
            (case skip_ws r of
               [] \<Rightarrow> None
             | c # cs \<Rightarrow>
                 if c = 0x2C then cons_item v (parse_elements cs)
                 else if c = 0x5D then Some ([v], cs)
                 else None)
          else None)"
| "parse_members s =
     (case skip_ws s of
        [] \<Rightarrow> None
      | q # s1 \<Rightarrow>
          if q = 0x22 then
            (case parse_chars s1 of
               None \<Rightarrow> None
             | Some (k, s2) \<Rightarrow>
                 (case skip_ws s2 of
                    [] \<Rightarrow> None
                  | c # s3 \<Rightarrow>
                      if c = 0x3A then
                        (case parse_value s3 of
                           None \<Rightarrow> None
                         | Some (v, r) \<Rightarrow>
                             if length r < length s3 then
                               (case skip_ws r of
                                  [] \<Rightarrow> None
                                | d # r1 \<Rightarrow>
                                    if d = 0x2C then cons_item (k, v) (parse_members r1)
                                    else if d = 0x7D then Some ([(k, v)], r1)
                                    else None)
                             else None)
                      else None))
          else None)"
  by pat_completeness auto
termination
proof (relation "measure (\<lambda>x. case x of Inl s \<Rightarrow> 2 * length s
                          | Inr (Inl s) \<Rightarrow> 2 * length s + 1
                          | Inr (Inr s) \<Rightarrow> 2 * length s + 1)", goal_cases)
  case 1
  show ?case by simp
next
  case (2 s c cs d ds)
  then show ?case by (auto dest: skip_ws_Cons_length)
next
  case (3 s c cs d ds)
  then show ?case by (auto dest: skip_ws_Cons_length)
next
  case (4 s)
  show ?case by simp
next
  case (5 s x v r c cs)
  then show ?case by (auto dest: skip_ws_Cons_length)
next
  case (6 s q s1 x k s2 c s3)
  then show ?case
    by (auto dest!: skip_ws_Cons_length parse_chars_length)
next
  case (7 s q s1 x k s2 c s3 y v r d r1)
  then show ?case
    by (auto dest!: skip_ws_Cons_length parse_chars_length)
qed

declare parse_value.simps [simp del] parse_elements.simps [simp del]
  parse_members.simps [simp del]

text \<open>\<open>JSON.parse\<close>: one value, and nothing but white space after it.\<close>

definition JSON_parse :: "jstring \<Rightarrow> json option" where
  "JSON_parse s =
     (case parse_value s of
        None \<Rightarrow> None
      | Some (v, r) \<Rightarrow> if skip_ws r = [] then Some v else None)"

subsection \<open>JSON.stringify\<close>

text \<open>
  \<open>QuoteJSONString\<close>: the quote, the backslash and the control characters are escaped,
  and so is a surrogate that does not stand in a pair (a well-formed \<open>JSON.stringify\<close>);
  every other code unit is written as it is.
\<close>

definition hex_char :: "nat \<Rightarrow> 16 word" where
  "hex_char n = of_nat (if n < 10 then 0x30 + n else 0x57 + n)"

definition unicode_escape :: "16 word \<Rightarrow> jstring" where
  "unicode_escape c =
     [0x5C, 0x75, hex_char (unat c div 0x1000), hex_char (unat c div 0x100 mod 0x10),
      hex_char (unat c div 0x10 mod 0x10), hex_char (unat c mod 0x10)]"

definition is_high_surrogate :: "16 word \<Rightarrow> bool" where
  "is_high_surrogate c = (0xD800 \<le> c \<and> c \<le> 0xDBFF)"

definition is_low_surrogate :: "16 word \<Rightarrow> bool" where
  "is_low_surrogate c = (0xDC00 \<le> c \<and> c \<le> 0xDFFF)"

definition quote_char :: "16 word \<Rightarrow> jstring" where
  "quote_char c =
     (if c = 0x08 then [0x5C, 0x62]
      else if c = 0x09 then [0x5C, 0x74]
      else if c = 0x0A then [0x5C, 0x6E]
      else if c = 0x0C then [0x5C, 0x66]
      else if c = 0x0D then [0x5C, 0x72]
      else if c = 0x22 then [0x5C, 0x22]
      else if c = 0x5C then [0x5C, 0x5C]
      else if c < 0x20 \<or> is_high_surrogate c \<or> is_low_surrogate c then unicode_escape c
      else [c])"

fun quote_chars :: "jstring \<Rightarrow> jstring" where
  "quote_chars [] = []"
| "quote_chars [c] = quote_char c"
| "quote_chars (c # d # cs) =
     (if is_high_surrogate c \<and> is_low_surrogate d then c # d # quote_chars cs
      else quote_char c @ quote_chars (d # cs))"

definition quote :: "jstring \<Rightarrow> jstring" where
  "quote s = 0x22 # quote_chars s @ [0x22]"

text \<open>
  \<open>Number::toString\<close> of an integer: its decimal digits (JavaScript changes to the
  exponent notation from 22 digits on, which the version of a store never has). A number
  that is not written as an integer is outside what the store writes; JavaScript prints
  the shortest decimal of its binary64 value there, the model the exact decimal with its
  exponent.
\<close>

fun digits_of :: "nat \<Rightarrow> jstring" where
  "digits_of n = (if n < 10 then [0x30 + of_nat n] else digits_of (n div 10) @ [0x30 + of_nat (n mod 10)])"

declare digits_of.simps [simp del]

definition int_to_string :: "int \<Rightarrow> jstring" where
  "int_to_string i = (if i < 0 then 0x2D # digits_of (nat (- i)) else digits_of (nat i))"

definition number_to_string :: "int \<Rightarrow> int \<Rightarrow> jstring" where
  "number_to_string m e = int_to_string m @ (if e = 0 then [] else 0x65 # int_to_string e)"

fun join_commas :: "jstring list \<Rightarrow> jstring" where
  "join_commas [] = []"
| "join_commas [x] = x"
| "join_commas (x # y # ys) = x @ 0x2C # join_commas (y # ys)"

fun JSON_stringify :: "json \<Rightarrow> jstring" where
  "JSON_stringify JNull = js ''null''"
| "JSON_stringify (JBool b) = (if b then js ''true'' else js ''false'')"
| "JSON_stringify (JNum m e) = number_to_string m e"
| "JSON_stringify (JStr s) = quote s"
| "JSON_stringify (JArr vs) = 0x5B # join_commas (map JSON_stringify vs) @ [0x5D]"
| "JSON_stringify (JObj ps) =
     0x7B # join_commas (map (\<lambda>(k, v). quote k @ 0x3A # JSON_stringify v) ps) @ [0x7D]"

section \<open>The storage adapter\<close>

subsection \<open>SerializedDownload and the stored value\<close>

text \<open>
  The interface \<open>SerializedDownload\<close> (lines 33-48); a property marked \<open>?\<close> may be
  absent. The names carry the prefix \<open>sd_\<close> to keep them apart from those of
  \<open>DownloadModel\<close>.
\<close>

record SerializedDownload =
  sd_item :: "DownloadItem option"
  sd_itemId :: "jstring option"
  sd_serverId :: "jstring option"
  sd_serverUrl :: jstring
  sd_apiKey :: jstring
  sd_title :: "jstring option"
  sd_filename :: jstring
  sd_extension :: "jstring option"
  sd_downloadUrl :: jstring
  sd_isComplete :: "bool option"
  sd_isNew :: bool
  sd_canPlay :: "bool option"
  sd_status :: "DownloadStatus option"

text \<open>zustand's \<open>StorageValue<State>\<close>: the state, which has the one property
  \<open>downloads\<close>, and the version of the store, a whole number.\<close>

record StorageValue =
  state_downloads :: DownloadMap
  version :: "int option"

text \<open>
  What \<open>deserialize\<close> can throw: the SyntaxError of \<open>JSON.parse\<close> and the TypeError of
  reading a property of \<open>undefined\<close> or \<open>null\<close> and of destructuring a value that is
  not iterable. \<open>Unmodelled\<close> is no error of the program and \<open>deserialize_js\<close> never
  returns it: it marks, in \<open>deserialize\<close>, a value that the program returns and that is not
  of the declared type \<open>StorageValue<State>\<close>.
\<close>

datatype error = SyntaxError | TypeError | Unmodelled

text \<open>A JavaScript value read from a parsed text: \<open>None\<close> is \<open>undefined\<close>.\<close>

type_synonym jsvalue = "json option"

text \<open>The lines written by \<open>console.error\<close>: the key and the record that was skipped.\<close>

type_synonym console = "(jsvalue \<times> json) list"

subsection \<open>Parsed values at their TypeScript types\<close>

text \<open>
  Modelled from the spec: the string values of the missing enum DownloadStatus. The spec
  (section 8, scenario B) stores \<open>status: "Downloading"\<close>: the members are written by
  their names. Every one is a non-empty string, hence truthy on line 88.
\<close>

definition status_name :: "DownloadStatus \<Rightarrow> jstring" where
  "status_name s =
     (case s of Queued \<Rightarrow> js ''Queued'' | Downloading \<Rightarrow> js ''Downloading''
      | Complete \<Rightarrow> js ''Complete'' | Failed \<Rightarrow> js ''Failed'')"

definition as_string :: "json \<Rightarrow> jstring option" where
  "as_string v = (case v of JStr s \<Rightarrow> Some s | _ \<Rightarrow> None)"

definition as_boolean :: "json \<Rightarrow> bool option" where
  "as_boolean v = (case v of JBool b \<Rightarrow> Some b | _ \<Rightarrow> None)"

definition as_integer :: "json \<Rightarrow> int option" where
  "as_integer v =
     (case v of
        JNum m e \<Rightarrow>
          if 0 \<le> e then Some (m * 10 ^ nat e)
          else if m mod 10 ^ nat (- e) = 0 then Some (m div 10 ^ nat (- e))
          else None
      | _ \<Rightarrow> None)"

definition as_DownloadStatus :: "json \<Rightarrow> DownloadStatus option" where
  "as_DownloadStatus v =
     (case v of
        JStr s \<Rightarrow>
          if s = status_name Queued then Some Queued
          else if s = status_name Downloading then Some Downloading
          else if s = status_name Complete then Some Complete
          else if s = status_name Failed then Some Failed
          else None
      | _ \<Rightarrow> None)"

text \<open>A required property, and one marked \<open>?\<close>.\<close>

definition required :: "(json \<Rightarrow> 'a option) \<Rightarrow> json option \<Rightarrow> 'a option" where
  "required f p = (case p of None \<Rightarrow> None | Some v \<Rightarrow> f v)"

definition optional :: "(json \<Rightarrow> 'a option) \<Rightarrow> json option \<Rightarrow> 'a option option" where
  "optional f p = (case p of None \<Rightarrow> Some None | Some v \<Rightarrow> map_option Some (f v))"

definition as_DownloadItem :: "json \<Rightarrow> DownloadItem option" where
  "as_DownloadItem v =
     (case v of
        JObj ps \<Rightarrow>
          do {
            i \<leftarrow> required as_string (get_prop ps (js ''Id''));
            s \<leftarrow> required as_string (get_prop ps (js ''ServerId''));
            n \<leftarrow> optional as_string (get_prop ps (js ''Name''));
            Some \<lparr>Id = i, ServerId = s, Name = n\<rparr>
          }
      | _ \<Rightarrow> None)"

definition as_SerializedDownload :: "json \<Rightarrow> SerializedDownload option" where
  "as_SerializedDownload v =
     (case v of
        JObj ps \<Rightarrow>
          do {
            i \<leftarrow> optional as_DownloadItem (get_prop ps (js ''item''));
            itemId \<leftarrow> optional as_string (get_prop ps (js ''itemId''));
            serverId \<leftarrow> optional as_string (get_prop ps (js ''serverId''));
            serverUrl \<leftarrow> required as_string (get_prop ps (js ''serverUrl''));
            apiKey \<leftarrow> required as_string (get_prop ps (js ''apiKey''));
            title \<leftarrow> optional as_string (get_prop ps (js ''title''));
            filename \<leftarrow> required as_string (get_prop ps (js ''filename''));
            extension \<leftarrow> optional as_string (get_prop ps (js ''extension''));
            downloadUrl \<leftarrow> required as_string (get_prop ps (js ''downloadUrl''));
            isComplete \<leftarrow> optional as_boolean (get_prop ps (js ''isComplete''));
            isNew \<leftarrow> required as_boolean (get_prop ps (js ''isNew''));
            canPlay \<leftarrow> optional as_boolean (get_prop ps (js ''canPlay''));
            status \<leftarrow> optional as_DownloadStatus (get_prop ps (js ''status''));
            Some \<lparr>sd_item = i, sd_itemId = itemId, sd_serverId = serverId,
                  sd_serverUrl = serverUrl, sd_apiKey = apiKey, sd_title = title,
                  sd_filename = filename, sd_extension = extension,
                  sd_downloadUrl = downloadUrl, sd_isComplete = isComplete, sd_isNew = isNew,
                  sd_canPlay = canPlay, sd_status = status\<rparr>
          }
      | _ \<Rightarrow> None)"

text \<open>An element of the stored array at the type \<open>[string, SerializedDownload]\<close>.\<close>

definition as_entry :: "json \<Rightarrow> (jstring \<times> SerializedDownload) option" where
  "as_entry v =
     (case v of
        JArr [JStr k, obj] \<Rightarrow> map_option (Pair k) (as_SerializedDownload obj)
      | _ \<Rightarrow> None)"

subsection \<open>deserialize (lines 52-113), as JavaScript runs it\<close>

text \<open>
  The annotations of the source do not bind the parsed text: \<open>JSON.parse\<close> returns
  \<open>any\<close>. This subsection follows the code on every parsed value; the next one reads
  the result at the declared types.
\<close>

text \<open>
  \<open>!!x\<close>: false of \<open>undefined\<close>, \<open>null\<close>, \<open>false\<close>, zero and the empty string. A
  number of the text is taken as its exact decimal, here and below; JavaScript holds the
  nearest double.
\<close>

definition truthy :: "jsvalue \<Rightarrow> bool" where
  "truthy x =
     (case x of
        None \<Rightarrow> False
      | Some JNull \<Rightarrow> False
      | Some (JBool b) \<Rightarrow> b
      | Some (JNum m e) \<Rightarrow> m \<noteq> 0
      | Some (JStr s) \<Rightarrow> s \<noteq> []
      | Some _ \<Rightarrow> True)"

text \<open>
  \<open>obj.name\<close> for a value that is neither \<open>undefined\<close> nor \<open>null\<close> and one of the
  names the source reads: an object has the property or not, any other value has none of
  them.
\<close>

definition read_prop :: "json \<Rightarrow> jstring \<Rightarrow> jsvalue" where
  "read_prop obj name = (case obj of JObj ps \<Rightarrow> get_prop ps name | _ \<Rightarrow> None)"

text \<open>
  The parameter \<open>[ key, obj ]\<close> of the callback (line 62): an array gives its first two
  elements, a string its first two code points, \<open>undefined\<close> where there is none; any
  other value is not iterable.
\<close>

definition element :: "json list \<Rightarrow> nat \<Rightarrow> jsvalue" where
  "element xs i = (if i < length xs then Some (xs ! i) else None)"

definition code_point :: "jstring \<Rightarrow> jstring" where
  "code_point s =
     (case s of
        [] \<Rightarrow> []
      | [c] \<Rightarrow> [c]
      | c # d # _ \<Rightarrow> if is_high_surrogate c \<and> is_low_surrogate d then [c, d] else [c])"

definition code_point_value :: "jstring \<Rightarrow> jsvalue" where
  "code_point_value s = (if s = [] then None else Some (JStr (code_point s)))"

definition destructure :: "json \<Rightarrow> error + jsvalue \<times> jsvalue" where
  "destructure e =
     (case e of
        JArr xs \<Rightarrow> Inr (element xs 0, element xs 1)
      | JStr s \<Rightarrow> Inr (code_point_value s, code_point_value (drop (length (code_point s)) s))
      | _ \<Rightarrow> Inl TypeError)"

text \<open>
  The item of a loaded record (lines 73-79): \<open>obj.item\<close> when it is truthy, else the
  object built from \<open>itemId\<close>, \<open>serverId\<close> and \<open>title\<close>.
\<close>

datatype js_item = GivenItem json | BuiltItem jsvalue jsvalue jsvalue

text \<open>
  An instance of DownloadModel as the running program holds it: the properties have the
  values that were assigned, whatever their types. \<open>canPlay\<close> is a boolean by line 98,
  the status is never \<open>undefined\<close>.
\<close>

record JsModel =
  js_item :: js_item
  js_serverUrl :: jsvalue
  js_apiKey :: jsvalue
  js_filename :: jsvalue
  js_downloadUrl :: jsvalue
  js_status :: json
  js_canPlay :: bool
  js_extension :: jsvalue
  js_isNew :: jsvalue

text \<open>
  Modelled from the spec: the constructor of the missing class DownloadModel, on any
  arguments: it keeps them, and the record starts as \<open>new_DownloadModel\<close> says.
\<close>

definition new_JsModel :: "js_item \<Rightarrow> jsvalue \<Rightarrow> jsvalue \<Rightarrow> jsvalue \<Rightarrow> jsvalue \<Rightarrow> JsModel" where
  "new_JsModel i url api file dl =
     \<lparr>js_item = i, js_serverUrl = url, js_apiKey = api, js_filename = file,
      js_downloadUrl = dl, js_status = JStr (status_name Queued), js_canPlay = True,
      js_extension = None, js_isNew = Some (JBool True)\<rparr>"

text \<open>The test of line 63, on a record that is neither \<open>undefined\<close> nor \<open>null\<close>.\<close>

definition js_invalid :: "json \<Rightarrow> bool" where
  "js_invalid obj =
     (\<not> truthy (read_prop obj (js ''item''))
      \<and> (\<not> truthy (read_prop obj (js ''itemId''))
           \<or> \<not> truthy (read_prop obj (js ''serverId''))))"

text \<open>Lines 73-100: the record built from a record of the text.\<close>

definition js_load :: "json \<Rightarrow> JsModel" where
  "js_load obj =
     (let item = (case read_prop obj (js ''item'') of
                    Some i \<Rightarrow>
                      if truthy (Some i) then GivenItem i
                      else BuiltItem (read_prop obj (js ''itemId''))
                             (read_prop obj (js ''serverId'')) (read_prop obj (js ''title''))
                  | None \<Rightarrow>
                      BuiltItem (read_prop obj (js ''itemId''))
                        (read_prop obj (js ''serverId'')) (read_prop obj (js ''title'')));
          model = new_JsModel item (read_prop obj (js ''serverUrl''))
                    (read_prop obj (js ''apiKey'')) (read_prop obj (js ''filename''))
                    (read_prop obj (js ''downloadUrl''));
          model = (case read_prop obj (js ''status'') of
                     Some s \<Rightarrow>
                       if truthy (Some s) then
                         (if s \<noteq> JStr (status_name Downloading) then model\<lparr>js_status := s\<rparr>
                          else model)
                       else if truthy (read_prop obj (js ''isComplete''))
                         then model\<lparr>js_status := JStr (status_name Complete)\<rparr>
                       else model
                   | None \<Rightarrow>
                       if truthy (read_prop obj (js ''isComplete''))
                         then model\<lparr>js_status := JStr (status_name Complete)\<rparr>
                       else model)
      in model\<lparr>js_canPlay := (case read_prop obj (js ''canPlay'') of
                                  Some (JBool b) \<Rightarrow> b
                                | _ \<Rightarrow> True),
               js_extension := read_prop obj (js ''extension''),
               js_isNew := read_prop obj (js ''isNew'')\<rparr>)"

text \<open>
  The Map that \<open>deserialize\<close> fills (line 59): its keys are whatever the text has in
  the place of the key. \<open>Map.prototype.set\<close> compares keys by SameValueZero: strings,
  booleans, \<open>null\<close> and \<open>undefined\<close> by value, numbers by their value (here: of the
  exact decimals), and an array or object only with itself, which never is the key of
  another element of the text.
\<close>

type_synonym JsMap = "(jsvalue \<times> JsModel) list"

definition same_number :: "int \<Rightarrow> int \<Rightarrow> int \<Rightarrow> int \<Rightarrow> bool" where
  "same_number m e m' e' =
     (if e \<le> e' then m = m' * 10 ^ nat (e' - e) else m * 10 ^ nat (e - e') = m')"

definition same_key :: "jsvalue \<Rightarrow> jsvalue \<Rightarrow> bool" where
  "same_key a b =
     (case (a, b) of
        (None, None) \<Rightarrow> True
      | (Some JNull, Some JNull) \<Rightarrow> True
      | (Some (JBool x), Some (JBool y)) \<Rightarrow> x = y
      | (Some (JNum m e), Some (JNum m' e')) \<Rightarrow> same_number m e m' e'
      | (Some (JStr s), Some (JStr t)) \<Rightarrow> s = t
      | _ \<Rightarrow> False)"

fun js_set :: "JsMap \<Rightarrow> jsvalue \<Rightarrow> JsModel \<Rightarrow> JsMap" where
  "js_set [] k v = [(k, v)]"
| "js_set (e # m) k v = (if same_key (fst e) k then (fst e, v) # m else e # js_set m k v)"

text \<open>
  The callback of \<open>forEach\<close> (lines 62-103), on the Map and the console so far:
  \<open>obj.item\<close> throws when \<open>obj\<close> is \<open>undefined\<close> or \<open>null\<close>.
\<close>

definition callback :: "json \<Rightarrow> JsMap \<times> console \<Rightarrow> error + JsMap \<times> console" where
  "callback e acc =
     (case destructure e of
        Inl err \<Rightarrow> Inl err
      | Inr (k, None) \<Rightarrow> Inl TypeError
      | Inr (k, Some JNull) \<Rightarrow> Inl TypeError
      | Inr (k, Some obj) \<Rightarrow>
          (case acc of
             (m, out) \<Rightarrow>
               if js_invalid obj then Inr (m, out @ [(k, obj)])
               else Inr (js_set m k (js_load obj), out)))"

text \<open>\<open>forEach\<close>: the elements in their order; an exception ends the loop.\<close>

fun forEach :: "json list \<Rightarrow> JsMap \<times> console \<Rightarrow> error + JsMap \<times> console" where
  "forEach [] acc = Inr acc"
| "forEach (e # es) acc =
     (case callback e acc of Inl err \<Rightarrow> Inl err | Inr acc' \<Rightarrow> forEach es acc')"

text \<open>\<open>value.state\<close> and \<open>value.state.downloads\<close> (line 61): reading a property of
  \<open>undefined\<close> or \<open>null\<close> throws; a value that is no object has no such property.\<close>

definition read_state :: "json \<Rightarrow> error + json" where
  "read_state v =
     (case v of
        JNull \<Rightarrow> Inl TypeError
      | JObj ps \<Rightarrow>
          (case get_prop ps (js ''state'') of
             None \<Rightarrow> Inl TypeError
           | Some JNull \<Rightarrow> Inl TypeError
           | Some st \<Rightarrow> Inr st)
      | _ \<Rightarrow> Inl TypeError)"

definition read_downloads :: "json \<Rightarrow> json option" where
  "read_downloads st = (case st of JObj ps \<Rightarrow> get_prop ps (js ''downloads'') | _ \<Rightarrow> None)"

text \<open>
  What \<open>deserialize\<close> returns: the Map, and of the other properties, which the spreads
  of lines 107 and 109 carry over as they are, the version.
\<close>

record JsStorageValue =
  js_downloads :: JsMap
  js_version :: jsvalue

text \<open>Lines 59-112, on the value that \<open>JSON.parse\<close> returned.\<close>

definition deserialize_value :: "json \<Rightarrow> error + JsStorageValue \<times> console" where
  "deserialize_value v =
     (case read_state v of
        Inl err \<Rightarrow> Inl err
      | Inr st \<Rightarrow>
          (case read_downloads st of
             Some (JArr es) \<Rightarrow>
               (case forEach es ([], []) of
                  Inl err \<Rightarrow> Inl err
                | Inr (m, out) \<Rightarrow>
                    Inr (\<lparr>js_downloads = m, js_version = read_prop v (js ''version'')\<rparr>, out))
           | _ \<Rightarrow> Inr (\<lparr>js_downloads = [], js_version = read_prop v (js ''version'')\<rparr>, [])))"

text \<open>\<open>deserialize\<close>: \<open>!valueString\<close> holds of \<open>null\<close> and of the empty string.\<close>

definition deserialize_js :: "jstring option \<Rightarrow> error + JsStorageValue \<times> console" where
  "deserialize_js valueString =
     (case valueString of
        None \<Rightarrow> Inr (\<lparr>js_downloads = [], js_version = None\<rparr>, [])
      | Some s \<Rightarrow>
          if s = [] then Inr (\<lparr>js_downloads = [], js_version = None\<rparr>, [])
          else
            (case JSON_parse s of
               None \<Rightarrow> Inl SyntaxError
             | Some v \<Rightarrow> deserialize_value v))"

subsection \<open>deserialize at its declared types\<close>

text \<open>
  The source declares the result a \<open>StorageValue<State>\<close>, the Map a
  \<open>Map<string, DownloadModel>\<close> and the properties of a record by the class
  DownloadModel. \<open>deserialize\<close> is \<open>deserialize_js\<close> with its result read at these
  types; where the result is not of them, it is \<open>Unmodelled\<close>.
\<close>

definition typed_item :: "js_item \<Rightarrow> DownloadItem option" where
  "typed_item i =
     (case i of
        GivenItem v \<Rightarrow> as_DownloadItem v
      | BuiltItem a b c \<Rightarrow>
          do {
            x \<leftarrow> required as_string a;
            y \<leftarrow> required as_string b;
            n \<leftarrow> optional as_string c;
            Some \<lparr>Id = x, ServerId = y, Name = n\<rparr>
          })"

definition typed_model :: "JsModel \<Rightarrow> DownloadModel option" where
  "typed_model m =
     do {
       i \<leftarrow> typed_item (js_item m);
       url \<leftarrow> required as_string (js_serverUrl m);
       api \<leftarrow> required as_string (js_apiKey m);
       file \<leftarrow> required as_string (js_filename m);
       dl \<leftarrow> required as_string (js_downloadUrl m);
       st \<leftarrow> as_DownloadStatus (js_status m);
       ext \<leftarrow> optional as_string (js_extension m);
       new \<leftarrow> required as_boolean (js_isNew m);
       Some \<lparr>item = i, serverUrl = url, apiKey = api, filename = file, downloadUrl = dl,
             status = st, canPlay = js_canPlay m, extension = ext, isNew = new\<rparr>
     }"

definition typed_entry :: "jsvalue \<times> JsModel \<Rightarrow> (jstring \<times> DownloadModel) option" where
  "typed_entry e =
     (case fst e of
        Some (JStr k) \<Rightarrow> map_option (Pair k) (typed_model (snd e))
      | _ \<Rightarrow> None)"

definition typed_value :: "JsStorageValue \<Rightarrow> StorageValue option" where
  "typed_value v =
     do {
       m \<leftarrow> those (map typed_entry (js_downloads v));
       n \<leftarrow> optional as_integer (js_version v);
       Some \<lparr>state_downloads = m, version = n\<rparr>
     }"

definition deserialize :: "jstring option \<Rightarrow> error + StorageValue \<times> console" where
  "deserialize valueString =
     (case deserialize_js valueString of
        Inl err \<Rightarrow> Inl err
      | Inr (v, out) \<Rightarrow>
          (case typed_value v of
             None \<Rightarrow> Inl Unmodelled
           | Some tv \<Rightarrow> Inr (tv, out)))"

text \<open>
  The test of line 63 and lines 73-100 on an entry of the declared type
  \<open>SerializedDownload\<close>: on such an entry \<open>js_invalid\<close> is \<open>invalid\<close> and the record
  that \<open>js_load\<close> builds is \<open>load_model\<close> (\<open>js_invalid_typed\<close>, \<open>js_load_typed\<close>).
  \<open>!x\<close> for a string that may be absent is true of \<open>undefined\<close> and of the empty string;
  where the entry has no item, \<open>itemId\<close> and \<open>serverId\<close> are present by the test (the
  \<open>!\<close> of lines 75 and 77).
\<close>

definition falsy :: "jstring option \<Rightarrow> bool" where
  "falsy x = (x = None \<or> x = Some [])"

definition invalid :: "SerializedDownload \<Rightarrow> bool" where
  "invalid obj = (sd_item obj = None \<and> (falsy (sd_itemId obj) \<or> falsy (sd_serverId obj)))"

definition load_model :: "SerializedDownload \<Rightarrow> DownloadModel" where
  "load_model obj =
     (let item = (case sd_item obj of
                    Some i \<Rightarrow> i
                  | None \<Rightarrow> \<lparr>Id = the (sd_itemId obj), ServerId = the (sd_serverId obj),
                             Name = sd_title obj\<rparr>);
          model = new_DownloadModel item (sd_serverUrl obj) (sd_apiKey obj) (sd_filename obj)
                    (sd_downloadUrl obj);
          model = (case sd_status obj of
                     Some s \<Rightarrow> if s \<noteq> Downloading then model\<lparr>status := s\<rparr> else model
                   | None \<Rightarrow>
                       if sd_isComplete obj = Some True then model\<lparr>status := Complete\<rparr>
                       else model)
      in model\<lparr>canPlay := (case sd_canPlay obj of Some b \<Rightarrow> b | None \<Rightarrow> True),
               extension := sd_extension obj,
               isNew := sd_isNew obj\<rparr>)"

text \<open>The callback on an entry of the declared type, on the Map so far.\<close>

definition deserialize_entry ::
  "jstring \<times> SerializedDownload \<Rightarrow> DownloadMap \<Rightarrow> DownloadMap" where
  "deserialize_entry e m =
     (if invalid (snd e) then m else set_entry m (fst e) (load_model (snd e)))"

text \<open>The version at its declared type, a whole number.\<close>

definition read_version :: "json \<Rightarrow> int option option" where
  "read_version v = optional as_integer (read_prop v (js ''version''))"

subsection \<open>The storage (lines 116-133)\<close>

text \<open>AsyncStorage: the stored string of each name.\<close>

type_synonym AsyncStorage = "jstring \<Rightarrow> jstring option"

text \<open>
  Modelled from the spec: what \<open>JSON.stringify\<close> writes for an instance of the missing
  class DownloadModel, its own properties (spec, section 6: the fields of a record). A
  property that is \<open>undefined\<close> is left out, as \<open>JSON.stringify\<close> does.
\<close>

definition opt_member :: "jstring \<Rightarrow> jstring option \<Rightarrow> (jstring \<times> json) list" where
  "opt_member k v = (case v of None \<Rightarrow> [] | Some s \<Rightarrow> [(k, JStr s)])"

definition item_to_json :: "DownloadItem \<Rightarrow> json" where
  "item_to_json i =
     JObj ([(js ''Id'', JStr (Id i)), (js ''ServerId'', JStr (ServerId i))]
           @ opt_member (js ''Name'') (Name i))"

definition model_to_json :: "DownloadModel \<Rightarrow> json" where
  "model_to_json d =
     JObj ([(js ''item'', item_to_json (item d)),
            (js ''serverUrl'', JStr (serverUrl d)),
            (js ''apiKey'', JStr (apiKey d)),
            (js ''filename'', JStr (filename d)),
            (js ''downloadUrl'', JStr (downloadUrl d)),
            (js ''status'', JStr (status_name (status d))),
            (js ''canPlay'', JBool (canPlay d))]
           @ opt_member (js ''extension'') (extension d)
           @ [(js ''isNew'', JBool (isNew d))])"

text \<open>\<open>Array.from(state.downloads.entries())\<close>: the pairs, in the order of the Map.\<close>

definition entries_to_json :: "DownloadMap \<Rightarrow> json" where
  "entries_to_json m = JArr (map (\<lambda>(k, d). JArr [JStr k, model_to_json d]) m)"

definition value_to_json :: "StorageValue \<Rightarrow> json" where
  "value_to_json v =
     JObj ([(js ''state'', JObj [(js ''downloads'', entries_to_json (state_downloads v))])]
           @ (case version v of None \<Rightarrow> [] | Some n \<Rightarrow> [(js ''version'', JNum n 0)]))"

definition setItem :: "jstring \<Rightarrow> StorageValue \<Rightarrow> AsyncStorage \<Rightarrow> AsyncStorage" where
  "setItem name v storage = (let str = JSON_stringify (value_to_json v) in storage(name \<mapsto> str))"

definition getItem :: "jstring \<Rightarrow> AsyncStorage \<Rightarrow> error + StorageValue \<times> console" where
  "getItem name storage = deserialize (storage name)"

definition removeItem :: "jstring \<Rightarrow> AsyncStorage \<Rightarrow> AsyncStorage" where
  "removeItem name storage = storage(name := None)"

definition STORE_NAME :: jstring where
  "STORE_NAME = js ''DownloadStore''"

section \<open>Notions used in the proofs\<close>

text \<open>The digit of a number below ten.\<close>

definition digit_char :: "nat \<Rightarrow> 16 word" where
  "digit_char k = 0x30 + of_nat k"

text \<open>What may follow a number: anything that does not continue it.\<close>

definition num_follow :: "jstring \<Rightarrow> bool" where
  "num_follow r =
     (case r of [] \<Rightarrow> True | c # _ \<Rightarrow> \<not> is_digit c \<and> c \<noteq> 0x2E \<and> c \<noteq> 0x65 \<and> c \<noteq> 0x45)"

text \<open>The values that \<open>JSON.stringify\<close> is applied to here: their numbers are written
  as integers.\<close>

fun printable :: "json \<Rightarrow> bool" where
  "printable (JNum m e) = (e = 0)"
| "printable (JArr vs) = list_all printable vs"
| "printable (JObj ps) = list_all (\<lambda>p. printable (snd p)) ps"
| "printable v = True"

text \<open>The character a value starts with.\<close>

definition value_start :: "16 word \<Rightarrow> bool" where
  "value_start c =
     (c = 0x7B \<or> c = 0x5B \<or> c = 0x22 \<or> c = 0x74 \<or> c = 0x66 \<or> c = 0x6E \<or> c = 0x2D
      \<or> is_digit c)"

text \<open>The text of one member of an object.\<close>

definition member_text :: "jstring \<times> json \<Rightarrow> jstring" where
  "member_text p = quote (fst p) @ 0x3A # JSON_stringify (snd p)"

text \<open>What the text written for a record reads back as, and the record that
  \<open>deserialize\<close> makes of it.\<close>

definition stored_form :: "DownloadModel \<Rightarrow> SerializedDownload" where
  "stored_form d =
     \<lparr>sd_item = Some (item d), sd_itemId = None, sd_serverId = None,
      sd_serverUrl = serverUrl d, sd_apiKey = apiKey d, sd_title = None,
      sd_filename = filename d, sd_extension = extension d,
      sd_downloadUrl = downloadUrl d, sd_isComplete = None, sd_isNew = isNew d,
      sd_canPlay = Some (canPlay d), sd_status = Some (status d)\<rparr>"

definition rehydrated :: "DownloadModel \<Rightarrow> DownloadModel" where
  "rehydrated d = (if status d = Downloading then d\<lparr>status := Queued\<rparr> else d)"

text \<open>The entries that a stored text holds, when it parses to a value of the type
  \<open>StorageValue<State>\<close> whose \<open>downloads\<close> is an array.\<close>

definition stored_entries :: "jstring \<Rightarrow> (jstring \<times> SerializedDownload) list option" where
  "stored_entries s =
     (case JSON_parse s of
        None \<Rightarrow> None
      | Some v \<Rightarrow>
          (case read_state v of
             Inl err \<Rightarrow> None
           | Inr st \<Rightarrow>
               (case read_version v of
                  None \<Rightarrow> None
                | Some ver \<Rightarrow>
                    (case read_downloads st of
                       Some (JArr es) \<Rightarrow> those (map as_entry es)
                     | _ \<Rightarrow> None))))"

text \<open>The members written for a record.\<close>

definition model_members :: "DownloadModel \<Rightarrow> (jstring \<times> json) list" where
  "model_members d =
          ([(js ''item'', item_to_json (item d)),
            (js ''serverUrl'', JStr (serverUrl d)),
            (js ''apiKey'', JStr (apiKey d)),
            (js ''filename'', JStr (filename d)),
            (js ''downloadUrl'', JStr (downloadUrl d)),
            (js ''status'', JStr (status_name (status d))),
            (js ''canPlay'', JBool (canPlay d))]
           @ opt_member (js ''extension'') (extension d)
           @ [(js ''isNew'', JBool (isNew d))])"

text \<open>The records that the entries of a text load: those of the entries that pass the
  test of line 63, in their order.\<close>

definition loaded :: "(jstring \<times> SerializedDownload) list \<Rightarrow> DownloadMap" where
  "loaded es = map (\<lambda>e. (fst e, load_model (snd e))) (filter (\<lambda>e. \<not> invalid (snd e)) es)"


text \<open>An element as a pair of a key and a record: the element can be destructured and
  what stands for the record is neither \<open>undefined\<close> nor \<open>null\<close>.\<close>

definition pair_of :: "json \<Rightarrow> (jsvalue \<times> json) option" where
  "pair_of e =
     (case destructure e of
        Inl err \<Rightarrow> None
      | Inr (k, None) \<Rightarrow> None
      | Inr (k, Some JNull) \<Rightarrow> None
      | Inr (k, Some obj) \<Rightarrow> Some (k, obj))"




subsection \<open>Example texts and values\<close>

text \<open>A stored text with three entries: one whose status is Downloading, one without
  \<open>serverId\<close> and without item, one with the legacy \<open>isComplete\<close>.\<close>

definition sample_text :: jstring where
  \<open>sample_text = js ''{"state":{"downloads":[["a",{"itemId":"i1","serverId":"s1","serverUrl":"u","apiKey":"k","filename":"f","downloadUrl":"d","isNew":false,"status":"Downloading"}],["b",{"itemId":"i2","serverUrl":"u","apiKey":"k","filename":"f","downloadUrl":"d","isNew":true}],["c",{"item":{"Id":"i3","ServerId":"s1"},"serverUrl":"u","apiKey":"k","filename":"f","downloadUrl":"d","isNew":true,"isComplete":true,"canPlay":false}]]},"version":0}''\<close>

definition entry_a :: SerializedDownload where
  "entry_a =
     \<lparr>sd_item = None, sd_itemId = Some (js ''i1''), sd_serverId = Some (js ''s1''),
      sd_serverUrl = js ''u'', sd_apiKey = js ''k'', sd_title = None, sd_filename = js ''f'',
      sd_extension = None, sd_downloadUrl = js ''d'', sd_isComplete = None, sd_isNew = False,
      sd_canPlay = None, sd_status = Some Downloading\<rparr>"

definition entry_b :: SerializedDownload where
  "entry_b =
     \<lparr>sd_item = None, sd_itemId = Some (js ''i2''), sd_serverId = None,
      sd_serverUrl = js ''u'', sd_apiKey = js ''k'', sd_title = None, sd_filename = js ''f'',
      sd_extension = None, sd_downloadUrl = js ''d'', sd_isComplete = None, sd_isNew = True,
      sd_canPlay = None, sd_status = None\<rparr>"

definition entry_c :: SerializedDownload where
  "entry_c =
     \<lparr>sd_item = Some \<lparr>Id = js ''i3'', ServerId = js ''s1'', Name = None\<rparr>,
      sd_itemId = None, sd_serverId = None,
      sd_serverUrl = js ''u'', sd_apiKey = js ''k'', sd_title = None, sd_filename = js ''f'',
      sd_extension = None, sd_downloadUrl = js ''d'', sd_isComplete = Some True,
      sd_isNew = True, sd_canPlay = Some False, sd_status = None\<rparr>"

text \<open>A value to store: the movie, and the song while it is downloading.\<close>

definition downloading_song :: DownloadModel where
  "downloading_song = song\<lparr>status := Downloading\<rparr>"

definition busy_value :: StorageValue where
  "busy_value =
     \<lparr>state_downloads = [(key movie, movie), (key song, downloading_song)],
      version = Some 0\<rparr>"

definition calm_value :: StorageValue where
  "calm_value = \<lparr>state_downloads = [(key movie, movie), (key song, song)], version = Some 0\<rparr>"

text \<open>The text that \<open>setItem\<close> writes for \<open>busy_value\<close>.\<close>

definition busy_text :: jstring where
  \<open>busy_text = js ''{"state":{"downloads":[["s1_i1",{"item":{"Id":"i1","ServerId":"s1","Name":"Movie"},"serverUrl":"http://srv","apiKey":"tok","filename":"movie.mp4","downloadUrl":"http://srv/dl/i1","status":"Queued","canPlay":true,"isNew":true}],["s1_i2",{"item":{"Id":"i2","ServerId":"s1"},"serverUrl":"http://srv","apiKey":"tok","filename":"song.mp3","downloadUrl":"http://srv/dl/i2","status":"Downloading","canPlay":true,"isNew":true}]]},"version":0}''\<close>







section \<open>Properties of the Map operations\<close>

lemma has_iff: "has m k = (k \<in> fst ` set m)"
  by (simp add: has_def map_of_eq_None_iff)

lemma set_entry_keys: "fst ` set (set_entry m k v) = insert k (fst ` set m)"
  by (induction m) auto

lemma set_entry_absent: "\<not> has m k \<Longrightarrow> set_entry m k v = m @ [(k, v)]"
  by (induction m) (auto simp: has_iff)

lemma map_fst_set_entry_present:
  "has m k \<Longrightarrow> map fst (set_entry m k v) = map fst m"
  by (induction m) (auto simp: has_iff)

lemma distinct_keys_set_entry:
  "distinct_keys m \<Longrightarrow> distinct_keys (set_entry m k v)"
proof (cases "has m k")
  case True
  assume "distinct_keys m"
  with True show ?thesis
    by (simp add: distinct_keys_def map_fst_set_entry_present)
next
  case False
  assume "distinct_keys m"
  with False show ?thesis
    by (simp add: distinct_keys_def set_entry_absent has_iff)
qed

lemma distinct_keys_delete_entry:
  "distinct_keys m \<Longrightarrow> distinct_keys (delete_entry m k)"
  by (simp add: distinct_keys_def delete_entry_def distinct_map_filter)

lemma has_delete_entry: "has (delete_entry m k) k' = (has m k' \<and> k' \<noteq> k)"
  by (auto simp: has_iff delete_entry_def)

lemma delete_entry_absent: "\<not> has m k \<Longrightarrow> delete_entry m k = m"
  by (induction m) (auto simp: has_iff delete_entry_def)

lemma distinct_keys_count:
  "distinct_keys m \<Longrightarrow> length (filter (\<lambda>e. fst e = k) m) \<le> 1"
proof (induction m)
  case Nil
  then show ?case by simp
next
  case (Cons e m)
  then have d: "distinct_keys m" and n: "fst e \<notin> fst ` set m"
    by (auto simp: distinct_keys_def)
  show ?case
  proof (cases "fst e = k")
    case True
    have "\<forall>x\<in>set m. fst x \<noteq> k"
    proof
      fix x
      assume "x \<in> set m"
      then have "fst x \<in> fst ` set m" by (rule imageI)
      with n True show "fst x \<noteq> k" by metis
    qed
    then have "filter (\<lambda>e. fst e = k) m = []"
      by (simp add: filter_empty_conv)
    with True show ?thesis by simp
  next
    case False
    with Cons.IH [OF d] show ?thesis by simp
  qed
qed

section \<open>Properties of the actions\<close>

lemma add_present: "Map_has (downloads st) (key d) st \<Longrightarrow> add d st = ((), st)"
  by (simp add: add_def priv_get_def)

lemma add_absent:
  "\<not> Map_has (downloads st) (key d) st \<Longrightarrow>
   add d st = ((), \<lparr>heap = heap st @ [set_entry (entries st) (key d) d],
                    downloads = length (heap st),
                    commits = commits st @ [length (heap st)]\<rparr>)"
  by (simp add: add_def priv_get_def new_Map_def Map_set_def priv_set_def entries_def)

lemma delete_eq:
  "delete d st =
     (has (entries st) (key d),
      if has (entries st) (key d)
      then \<lparr>heap = heap st @ [delete_entry (entries st) (key d)],
            downloads = length (heap st),
            commits = commits st @ [length (heap st)]\<rparr>
      else st\<lparr>heap := heap st @ [delete_entry (entries st) (key d)]\<rparr>)"
  by (simp add: delete_def priv_get_def new_Map_def Map_delete_def priv_set_def entries_def)

lemma update_eq:
  "update d st =
     ((), \<lparr>heap = heap st @ [set_entry (entries st) (key d) d],
           downloads = length (heap st),
           commits = commits st @ [length (heap st)]\<rparr>)"
  by (simp add: update_def priv_get_def new_Map_def Map_set_def priv_set_def entries_def)

lemma reset_eq:
  "reset st =
     ((), \<lparr>heap = heap st @ [[]], downloads = length (heap st),
           commits = commits st @ [length (heap st)]\<rparr>)"
  by (simp add: reset_def new_Map_def priv_set_def)

lemma wf_store_entries: "wf_store st \<Longrightarrow> distinct_keys (entries st)"
  by (simp add: wf_store_def entries_def list_all_length)

lemma wf_store_add: "wf_store st \<Longrightarrow> wf_store (snd (add d st))"
proof (cases "Map_has (downloads st) (key d) st")
  case True
  assume "wf_store st"
  with True show ?thesis by (simp add: add_present)
next
  case False
  assume w: "wf_store st"
  from wf_store_entries [OF w] have "distinct_keys (set_entry (entries st) (key d) d)"
    by (rule distinct_keys_set_entry)
  with w False show ?thesis
    by (simp add: add_absent wf_store_def)
qed

lemma wf_store_update: "wf_store st \<Longrightarrow> wf_store (snd (update d st))"
proof -
  assume w: "wf_store st"
  from wf_store_entries [OF w] have "distinct_keys (set_entry (entries st) (key d) d)"
    by (rule distinct_keys_set_entry)
  with w show ?thesis
    by (simp add: update_eq wf_store_def)
qed

lemma wf_store_delete: "wf_store st \<Longrightarrow> wf_store (snd (delete d st))"
proof -
  assume w: "wf_store st"
  from wf_store_entries [OF w] have "distinct_keys (delete_entry (entries st) (key d))"
    by (rule distinct_keys_delete_entry)
  with w show ?thesis
    by (simp add: delete_eq wf_store_def)
qed

lemma wf_store_reset: "wf_store st \<Longrightarrow> wf_store (snd (reset st))"
  by (simp add: reset_eq wf_store_def distinct_keys_def)

lemma wf_store_add_all: "wf_store st \<Longrightarrow> wf_store (add_all ds st)"
  by (induction ds arbitrary: st) (simp_all add: wf_store_add)

lemma wf_initialStore: "wf_store initialStore"
  by (simp add: wf_store_def initialStore_def distinct_keys_def)

section \<open>The example records\<close>

lemma key_movie: "key movie = js ''s1_i1''"
  by (simp add: key_def movie_def new_DownloadModel_def js_def)

lemma key_song: "key song = js ''s1_i2''"
  by (simp add: key_def song_def new_DownloadModel_def js_def)

lemma keys_differ: "key song \<noteq> key movie"
  by (simp add: key_movie key_song js_def)

lemma one_movie_eq:
  "one_movie = \<lparr>heap = [[], [(key movie, movie)]], downloads = 1, commits = [1]\<rparr>"
  by (simp add: one_movie_def add_def priv_get_def Map_has_def has_def initialStore_def
      new_Map_def Map_set_def priv_set_def)

lemma wf_one_movie: "wf_store one_movie"
  unfolding one_movie_def by (rule wf_store_add [OF wf_initialStore])

lemma entries_one_movie: "entries one_movie = [(key movie, movie)]"
  by (simp add: one_movie_eq entries_def)

section \<open>JSON.parse reads back what JSON.stringify writes\<close>

subsection \<open>Strings\<close>

lemma unat_of_nat_16: "n < 65536 \<Longrightarrow> unat (of_nat n :: 16 word) = n"
  by (simp add: unat_of_nat)

lemma unat_plus_of_nat:
  "a + n < 65536 \<Longrightarrow> unat ((of_nat a :: 16 word) + of_nat n) = a + n"
  using unat_of_nat_16 [of "a + n"] by (simp only: of_nat_add)

lemma hex_digit_hex_char: "n < 16 \<Longrightarrow> hex_digit (hex_char n) = Some n"
  using unat_plus_of_nat [of 48 n] unat_plus_of_nat [of 87 n]
  by (simp add: hex_digit_def hex_char_def word_le_nat_alt)

lemma hex_sum:
  "0x1000 * (n div 0x1000) + 0x100 * (n div 0x100 mod 0x10) + 0x10 * (n div 0x10 mod 0x10) + n mod 0x10 = (n::nat)"
proof -
  have a: "n mod 256 = 16 * (n div 16 mod 16) + n mod 16"
    using mod_mult2_eq [of n 16 16] by simp
  have b: "n mod 4096 = 256 * (n div 256 mod 16) + n mod 256"
    using mod_mult2_eq [of n 256 16] by simp
  have "n = 4096 * (n div 4096) + n mod 4096" by simp
  with a b show ?thesis by simp
qed

lemma hex4_unicode_escape:
  "hex4 (hex_char (unat c div 0x1000)) (hex_char (unat c div 0x100 mod 0x10))
        (hex_char (unat c div 0x10 mod 0x10)) (hex_char (unat c mod 0x10)) = Some c"
proof -
  have "unat c < 65536" using unsigned_less [of c, where 'a = nat] by simp
  then have "unat c div 0x1000 < 16" by simp
  then show ?thesis
    by (simp add: hex4_def hex_digit_hex_char hex_sum)
qed

lemma parse_chars_unicode_escape:
  "parse_chars (unicode_escape c @ t) = cons_char c (parse_chars t)"
  by (simp add: unicode_escape_def hex4_unicode_escape)

lemma parse_chars_escape:
  "unescape e = Some u \<Longrightarrow> e \<noteq> 0x75 \<Longrightarrow>
   parse_chars (0x5C # e # t) = cons_char u (parse_chars t)"
  by simp

lemma parse_chars_plain:
  "c \<noteq> 0x22 \<Longrightarrow> c \<noteq> 0x5C \<Longrightarrow> \<not> c < 0x20 \<Longrightarrow>
   parse_chars (c # t) = cons_char c (parse_chars t)"
  by simp

lemma surrogate_plain:
  "is_high_surrogate c \<or> is_low_surrogate c \<Longrightarrow> c \<noteq> 0x22 \<and> c \<noteq> 0x5C \<and> \<not> c < 0x20"
  by (auto simp: is_high_surrogate_def is_low_surrogate_def word_le_nat_alt word_less_nat_alt)

lemma parse_chars_quote_char:
  "parse_chars (quote_char c @ t) = cons_char c (parse_chars t)"
proof -
  consider "c = 0x08" | "c = 0x09" | "c = 0x0A" | "c = 0x0C" | "c = 0x0D" | "c = 0x22"
    | "c = 0x5C"
    | "c \<notin> {0x08, 0x09, 0x0A, 0x0C, 0x0D, 0x22, 0x5C}"
      "c < 0x20 \<or> is_high_surrogate c \<or> is_low_surrogate c"
    | "c \<notin> {0x08, 0x09, 0x0A, 0x0C, 0x0D, 0x22, 0x5C}"
      "\<not> (c < 0x20 \<or> is_high_surrogate c \<or> is_low_surrogate c)"
    by blast
  then show ?thesis
  proof cases
    case 8
    then have "quote_char c = unicode_escape c"
      by (simp add: quote_char_def)
    then show ?thesis by (simp only: parse_chars_unicode_escape)
  next
    case 9
    then have "quote_char c = [c]"
      by (simp add: quote_char_def)
    with 9 show ?thesis by (simp add: parse_chars_plain del: parse_chars.simps)
  qed (simp_all add: quote_char_def parse_chars_escape unescape_def del: parse_chars.simps)
qed

lemma parse_chars_quote_chars:
  "parse_chars (quote_chars s @ 0x22 # r) = Some (s, r)"
proof (induction s rule: quote_chars.induct)
  case 1
  show ?case by simp
next
  case (2 c)
  have "parse_chars (quote_char c @ 0x22 # r) = cons_char c (parse_chars (0x22 # r))"
    by (rule parse_chars_quote_char)
  then show ?case by (simp add: cons_char_def del: parse_chars.simps) simp
next
  case (3 c d cs)
  show ?case
  proof (cases "is_high_surrogate c \<and> is_low_surrogate d")
    case True
    then have pc: "parse_chars (c # t) = cons_char c (parse_chars t)"
      and pd: "parse_chars (d # t) = cons_char d (parse_chars t)" for t
      using surrogate_plain [of c] surrogate_plain [of d]
      by (simp_all add: parse_chars_plain del: parse_chars.simps)
    from True have "quote_chars (c # d # cs) = c # d # quote_chars cs" by simp
    with "3.IH"(1) [OF True] show ?thesis
      by (simp add: pc pd cons_char_def del: parse_chars.simps)
  next
    case False
    then have "quote_chars (c # d # cs) = quote_char c @ quote_chars (d # cs)" by auto
    with "3.IH"(2) [OF False] show ?thesis
      by (simp add: parse_chars_quote_char cons_char_def del: parse_chars.simps)
  qed
qed

subsection \<open>Numbers\<close>

lemma digit_char_props:
  assumes "k < 10"
  shows "is_digit (digit_char k) \<and> unat (digit_char k - 0x30) = k
     \<and> (digit_char k = 0x30 \<longleftrightarrow> k = 0)"
proof -
  have u: "unat (digit_char k) = 48 + k"
    using assms unat_plus_of_nat [of 48 k] by (simp add: digit_char_def)
  have "digit_char k - 0x30 = of_nat k"
    by (simp add: digit_char_def)
  then have m: "unat (digit_char k - 0x30) = k"
    using assms by (simp add: unat_of_nat_16)
  have "digit_char k = 0x30 \<longleftrightarrow> unat (digit_char k) = unat (0x30 :: 16 word)"
    by (simp add: word_unat_eq_iff)
  with u have z: "digit_char k = 0x30 \<longleftrightarrow> k = 0" by simp
  from u assms have "is_digit (digit_char k)"
    by (simp add: is_digit_def word_le_nat_alt)
  with m z show ?thesis by simp
qed

lemma digits_of_unfold:
  "digits_of n = (if n < 10 then [digit_char n] else digits_of (n div 10) @ [digit_char (n mod 10)])"
  by (subst digits_of.simps) (simp add: digit_char_def)

lemma digits_of_digits: "list_all is_digit (digits_of n)"
proof (induction n rule: digits_of.induct)
  case (1 n)
  have "n mod 10 < 10" by simp
  with 1 show ?case
    by (subst digits_of_unfold) (simp add: digit_char_props)
qed

lemma digits_of_not_Nil: "digits_of n \<noteq> []"
  by (subst digits_of_unfold) simp

lemma digits_val_snoc: "digits_val (ds @ [d]) = 10 * digits_val ds + unat (d - 0x30)"
  by (simp add: digits_val_def)

lemma digits_val_digits_of: "digits_val (digits_of n) = n"
proof (induction n rule: digits_of.induct)
  case (1 n)
  show ?case
  proof (cases "n < 10")
    case True
    then show ?thesis
      by (subst digits_of_unfold) (simp add: digits_val_def digit_char_props)
  next
    case False
    have "n mod 10 < 10" by simp
    with False 1 show ?thesis
      by (subst digits_of_unfold) (simp add: digits_val_snoc digit_char_props)
  qed
qed

lemma hd_digits_of: "hd (digits_of n) = 0x30 \<Longrightarrow> n = 0"
proof (induction n rule: digits_of.induct)
  case (1 n)
  show ?case
  proof (cases "n < 10")
    case True
    with "1.prems" show ?thesis
      by (subst (asm) digits_of_unfold) (simp add: digit_char_props)
  next
    case False
    with "1.prems" have "hd (digits_of (n div 10)) = 0x30"
      by (subst (asm) digits_of_unfold) (simp add: digits_of_not_Nil)
    with "1.IH" False have "n div 10 = 0" by simp
    with False show ?thesis by simp
  qed
qed

lemma takeWhile_digits:
  "list_all is_digit ds \<Longrightarrow> num_follow r \<Longrightarrow>
   takeWhile is_digit (ds @ r) = ds \<and> dropWhile is_digit (ds @ r) = r"
  by (induction ds) (auto simp: num_follow_def split: list.splits)

lemma parse_int_part_digits_of:
  assumes "num_follow r"
  shows "parse_int_part (digits_of n @ r) = (digits_of n, r)"
proof (cases "hd (digits_of n) = 0x30")
  case True
  then have "n = 0" by (rule hd_digits_of)
  then have "digits_of n = [0x30]"
    by (subst digits_of_unfold) (simp add: digit_char_def)
  then show ?thesis by (simp add: parse_int_part_def)
next
  case False
  obtain d ds where d: "digits_of n = d # ds"
    using digits_of_not_Nil [of n] by (cases "digits_of n") auto
  with False have "d \<noteq> 0x30" by simp
  with d takeWhile_digits [OF digits_of_digits assms, of n] show ?thesis
    by (simp add: parse_int_part_def)
qed

lemma parse_unsigned_digits_of:
  assumes "num_follow r"
  shows "parse_unsigned neg (digits_of n @ r)
       = Some (JNum (if neg then - int n else int n) 0, r)"
proof -
  from assms have "parse_fraction r = Some ([], r)" "parse_exponent r = Some (0, r)"
    by (auto simp: parse_fraction_def parse_exponent_def num_follow_def split: list.splits)
  then show ?thesis
    by (simp add: parse_unsigned_def parse_int_part_digits_of [OF assms] digits_of_not_Nil
        digits_val_digits_of)
qed

lemma hd_digits_of_digit: "is_digit (hd (digits_of n))"
  using digits_of_digits [of n] digits_of_not_Nil [of n]
  by (cases "digits_of n") simp_all

lemma parse_number_int_to_string:
  assumes "num_follow r"
  shows "parse_number (int_to_string i @ r) = Some (JNum i 0, r)"
proof (cases "i < 0")
  case True
  then show ?thesis
    using parse_unsigned_digits_of [OF assms, of True "nat (- i)"]
    by (simp add: parse_number_def int_to_string_def)
next
  case False
  obtain d ds where d: "digits_of (nat i) = d # ds"
    using digits_of_not_Nil [of "nat i"] by (cases "digits_of (nat i)") auto
  with hd_digits_of_digit [of "nat i"] have "d \<noteq> 0x2D"
    by (auto simp: is_digit_def)
  with d False show ?thesis
    using parse_unsigned_digits_of [OF assms, of False "nat i"]
    by (simp add: parse_number_def int_to_string_def)
qed

subsection \<open>Values\<close>

lemma value_start_props:
  "value_start c \<Longrightarrow> \<not> is_ws c \<and> c \<noteq> 0x5D \<and> c \<noteq> 0x7D \<and> c \<noteq> 0x2C \<and> c \<noteq> 0x3A"
  by (auto simp: value_start_def is_ws_def is_digit_def)

lemma skip_ws_start: "\<not> is_ws c \<Longrightarrow> skip_ws (c # cs) = c # cs"
  by (simp add: skip_ws_def)

lemma int_to_string_start: "\<exists>c cs. int_to_string i = c # cs \<and> (c = 0x2D \<or> is_digit c)"
proof (cases "i < 0")
  case True
  then show ?thesis by (simp add: int_to_string_def)
next
  case False
  obtain d ds where "digits_of (nat i) = d # ds"
    using digits_of_not_Nil [of "nat i"] by (cases "digits_of (nat i)") auto
  with hd_digits_of_digit [of "nat i"] False show ?thesis
    by (simp add: int_to_string_def)
qed

lemma stringify_start: "\<exists>c cs. JSON_stringify v = c # cs \<and> value_start c"
proof (cases v)
  case (JNum m e)
  from int_to_string_start [of m] obtain c cs where
    "int_to_string m = c # cs" "c = 0x2D \<or> is_digit c" by blast
  with JNum show ?thesis
    by (auto simp: number_to_string_def value_start_def)
qed (simp_all add: js_def value_start_def quote_def)

lemma parse_literal_number:
  "c = 0x2D \<or> is_digit c \<Longrightarrow> parse_literal (c # cs) = parse_number (c # cs)"
  by (auto simp: parse_literal_def js_def is_digit_def)

lemma parse_value_literal:
  "\<not> is_ws c \<Longrightarrow> c \<noteq> 0x7B \<Longrightarrow> c \<noteq> 0x5B \<Longrightarrow> c \<noteq> 0x22 \<Longrightarrow>
   parse_value (c # cs) = parse_literal (c # cs)"
  by (subst parse_value.simps) (simp add: skip_ws_start)

lemma parse_value_null: "parse_value (js ''null'' @ r) = Some (JNull, r)"
  by (simp add: js_def parse_value_literal is_ws_def parse_literal_def)

lemma parse_value_bool:
  "parse_value ((if b then js ''true'' else js ''false'') @ r) = Some (JBool b, r)"
  by (simp add: js_def parse_value_literal is_ws_def parse_literal_def)

lemma parse_value_number:
  assumes "num_follow r"
  shows "parse_value (number_to_string m 0 @ r) = Some (JNum m 0, r)"
proof -
  from int_to_string_start [of m] obtain c cs where
    s: "int_to_string m = c # cs" and c: "c = 0x2D \<or> is_digit c" by blast
  from c have "\<not> is_ws c" "c \<noteq> 0x7B" "c \<noteq> 0x5B" "c \<noteq> 0x22"
    by (auto simp: is_ws_def is_digit_def)
  then have "parse_value (c # cs @ r) = parse_literal (c # cs @ r)"
    by (rule parse_value_literal)
  also have "\<dots> = parse_number (c # cs @ r)"
    using c by (rule parse_literal_number)
  also have "\<dots> = Some (JNum m 0, r)"
    using parse_number_int_to_string [OF assms, of m] s by simp
  finally show ?thesis
    using s by (simp add: number_to_string_def)
qed

lemma parse_value_string: "parse_value (quote s @ r) = Some (JStr s, r)"
  by (subst parse_value.simps)
     (simp add: quote_def skip_ws_start is_ws_def parse_chars_quote_chars wrap_def
        del: parse_chars.simps)


lemma start_follow: "c = 0x2C \<or> c = 0x5D \<or> c = 0x7D \<Longrightarrow> num_follow (c # r)"
  by (auto simp: num_follow_def is_digit_def)

lemma join_commas_Cons:
  "join_commas (x # xs) = (if xs = [] then x else x @ 0x2C # join_commas xs)"
  by (cases xs) simp_all

lemma parse_elements_join:
  assumes "vs \<noteq> []"
    and "\<And>v r. v \<in> set vs \<Longrightarrow> num_follow r \<Longrightarrow>
           parse_value (JSON_stringify v @ r) = Some (v, r)"
  shows "parse_elements (join_commas (map JSON_stringify vs) @ 0x5D # r) = Some (vs, r)"
  using assms
proof (induction vs)
  case Nil
  then show ?case by simp
next
  case (Cons v vs)
  obtain c cs where st: "JSON_stringify v = c # cs"
    using stringify_start [of v] by blast
  show ?case
  proof (cases "vs = []")
    case True
    have "parse_value (JSON_stringify v @ 0x5D # r) = Some (v, 0x5D # r)"
      by (rule Cons.prems(2)) (simp_all add: start_follow)
    with True st show ?thesis
      by (subst parse_elements.simps) (simp add: skip_ws_start is_ws_def)
  next
    case False
    let ?rest = "join_commas (map JSON_stringify vs) @ 0x5D # r"
    have "parse_value (JSON_stringify v @ 0x2C # ?rest) = Some (v, 0x2C # ?rest)"
      by (rule Cons.prems(2)) (simp_all add: start_follow)
    moreover have "parse_elements ?rest = Some (vs, r)"
      using False Cons.prems(2) by (intro Cons.IH) simp_all
    ultimately show ?thesis
      using False st
      by (subst parse_elements.simps)
         (simp add: join_commas_Cons skip_ws_start is_ws_def cons_item_def)
  qed
qed

lemma parse_members_join:
  assumes "ps \<noteq> []"
    and "\<And>p r. p \<in> set ps \<Longrightarrow> num_follow r \<Longrightarrow>
           parse_value (JSON_stringify (snd p) @ r) = Some (snd p, r)"
  shows "parse_members (join_commas (map member_text ps) @ 0x7D # r) = Some (ps, r)"
  using assms
proof (induction ps)
  case Nil
  then show ?case by simp
next
  case (Cons p ps)
  obtain k v where p: "p = (k, v)" by (cases p)
  obtain c cs where st: "JSON_stringify v = c # cs"
    using stringify_start [of v] by blast
  have key: "parse_chars (quote_chars k @ 0x22 # t) = Some (k, t)" for t
    by (rule parse_chars_quote_chars)
  show ?case
  proof (cases "ps = []")
    case True
    have "parse_value (JSON_stringify (snd p) @ 0x7D # r) = Some (snd p, 0x7D # r)"
      by (rule Cons.prems(2)) (simp_all add: start_follow)
    with True st p show ?thesis
      by (subst parse_members.simps)
         (simp add: member_text_def quote_def skip_ws_start is_ws_def key
            del: parse_chars.simps)
  next
    case False
    let ?rest = "join_commas (map member_text ps) @ 0x7D # r"
    have "parse_value (JSON_stringify (snd p) @ 0x2C # ?rest) = Some (snd p, 0x2C # ?rest)"
      by (rule Cons.prems(2)) (simp_all add: start_follow)
    moreover have "parse_members ?rest = Some (ps, r)"
      using False Cons.prems(2) by (intro Cons.IH) simp_all
    ultimately show ?thesis
      using False st p
      by (subst parse_members.simps)
         (simp add: join_commas_Cons member_text_def quote_def skip_ws_start is_ws_def key
            cons_item_def del: parse_chars.simps)
  qed
qed

lemma stringify_JObj:
  "JSON_stringify (JObj ps) = 0x7B # join_commas (map member_text ps) @ [0x7D]"
proof -
  have "(\<lambda>(k, v). quote k @ 0x3A # JSON_stringify v) = member_text"
    by (rule ext) (simp add: member_text_def split: prod.split)
  then show ?thesis by simp
qed

lemma join_start:
  assumes "xs \<noteq> []" and "\<And>x. x \<in> set xs \<Longrightarrow> \<exists>c cs. x = c # cs \<and> value_start c"
  shows "\<exists>c cs. join_commas xs = c # cs \<and> value_start c"
proof -
  from assms(1) obtain x ys where xs: "xs = x # ys" by (cases xs) auto
  with assms(2) [of x] obtain c cs where "x = c # cs" "value_start c" by auto
  with xs show ?thesis by (auto simp: join_commas_Cons)
qed

lemma parse_value_stringify:
  "printable v \<Longrightarrow> num_follow r \<Longrightarrow> parse_value (JSON_stringify v @ r) = Some (v, r)"
proof (induction v arbitrary: r)
  case JNull
  show ?case using parse_value_null by simp
next
  case (JBool b)
  show ?case using parse_value_bool [of b r] by simp
next
  case (JNum m e)
  then show ?case using parse_value_number [of r m] by simp
next
  case (JStr s)
  show ?case using parse_value_string by simp
next
  case (JArr vs)
  show ?case
  proof (cases "vs = []")
    case True
    then show ?thesis
      by (subst parse_value.simps) (simp add: skip_ws_start is_ws_def)
  next
    case False
    have el: "parse_value (JSON_stringify v @ t) = Some (v, t)"
      if "v \<in> set vs" "num_follow t" for v t
      using that JArr.prems(1) by (intro JArr.IH) (simp_all add: list_all_iff)
    have pe: "parse_elements (join_commas (map JSON_stringify vs) @ 0x5D # r) = Some (vs, r)"
      using False el by (rule parse_elements_join)
    have "\<exists>c cs. x = c # cs \<and> value_start c" if "x \<in> set (map JSON_stringify vs)" for x
    proof -
      from that obtain v where "x = JSON_stringify v" by auto
      with stringify_start [of v] show ?thesis by simp
    qed
    with False have "\<exists>c cs. join_commas (map JSON_stringify vs) = c # cs \<and> value_start c"
      by (intro join_start) simp_all
    then obtain c cs where j: "join_commas (map JSON_stringify vs) = c # cs"
      and c: "value_start c" by blast
    from value_start_props [OF c] j pe show ?thesis
      by (subst parse_value.simps) (simp add: skip_ws_start is_ws_def wrap_def)
  qed
next
  case (JObj ps)
  show ?case
  proof (cases "ps = []")
    case True
    then show ?thesis
      by (subst parse_value.simps) (simp add: skip_ws_start is_ws_def)
  next
    case False
    have el: "parse_value (JSON_stringify (snd p) @ t) = Some (snd p, t)"
      if "p \<in> set ps" "num_follow t" for p t
    proof -
      from that(1) JObj.prems(1) have "printable (snd p)"
        by (simp add: list_all_iff)
      moreover have "snd p \<in> Basic_BNFs.snds p"
        by (cases p) simp
      ultimately show ?thesis
        using that by (intro JObj.IH)
    qed
    have pm: "parse_members (join_commas (map member_text ps) @ 0x7D # r) = Some (ps, r)"
      using False el by (rule parse_members_join)
    from False obtain p ps' where "ps = p # ps'" by (cases ps) auto
    then have "\<exists>cs. join_commas (map member_text ps) = 0x22 # cs"
      by (cases "ps' = []") (simp_all add: join_commas_Cons member_text_def quote_def)
    then obtain cs where j: "join_commas (map member_text ps) = 0x22 # cs" ..
    with pm show ?thesis
      by (subst parse_value.simps)
         (simp add: stringify_JObj skip_ws_start is_ws_def wrap_def del: JSON_stringify.simps)
  qed
qed

lemma JSON_parse_stringify: "printable v \<Longrightarrow> JSON_parse (JSON_stringify v) = Some v"
  using parse_value_stringify [of v "[]"]
  by (simp add: JSON_parse_def num_follow_def skip_ws_def)

subsection \<open>The tests on the length never fail\<close>

lemma wrap_Some: "wrap f p = Some (v, r) \<Longrightarrow> \<exists>x. p = Some (x, r)"
  by (auto simp: wrap_def split: option.splits)

lemma cons_item_Some: "cons_item x p = Some (v, r) \<Longrightarrow> \<exists>xs. p = Some (xs, r)"
  by (auto simp: cons_item_def split: option.splits)

lemma dropWhile_length_le: "length (dropWhile P xs) \<le> length xs"
  by (induction xs) auto

lemma parse_number_length: "parse_number s = Some (v, r) \<Longrightarrow> length r < length s"
proof -
  have ip: "parse_int_part t = (a, b) \<Longrightarrow> a \<noteq> [] \<Longrightarrow> length b < length t" for t a b
    by (cases t) (auto simp: parse_int_part_def le_imp_less_Suc dropWhile_length_le
        split: if_splits)
  have fr: "parse_fraction t = Some (a, b) \<Longrightarrow> length b \<le> length t" for t a b
    by (cases t) (auto simp: parse_fraction_def le_SucI dropWhile_length_le split: if_splits)
  have ed: "parse_exp_digits n t = Some (a, b) \<Longrightarrow> length b \<le> length t" for n t a b
    by (auto simp: parse_exp_digits_def dropWhile_length_le split: if_splits)
  have ex: "parse_exponent t = Some (a, b) \<Longrightarrow> length b \<le> length t" for t a b
    by (cases t) (auto simp: parse_exponent_def split: if_splits list.splits
        dest!: ed)
  have un: "parse_unsigned n t = Some (v, r) \<Longrightarrow> length r < length t" for n t
    by (auto simp: parse_unsigned_def split: prod.splits if_splits option.splits
        dest!: ip fr ex)
  assume "parse_number s = Some (v, r)"
  then show ?thesis
    by (cases s) (auto simp: parse_number_def split: if_splits dest!: un)
qed

lemma take_literal_length: "take n s = c # cs \<Longrightarrow> 0 < n \<Longrightarrow> length s - n < length s"
  by (cases s) auto

lemma parse_literal_length: "parse_literal s = Some (v, r) \<Longrightarrow> length r < length s"
  by (auto simp: parse_literal_def js_def split: if_splits
      dest: parse_number_length take_literal_length)

lemma parse_rest:
  "(parse_value s = Some (v, r) \<longrightarrow> length r < length s)"
  "(parse_elements s1 = Some (vs, r1) \<longrightarrow> length r1 < length s1)"
  "(parse_members s2 = Some (ms, r2) \<longrightarrow> length r2 < length s2)"
proof (induction s and s1 and s2 arbitrary: v r and vs r1 and ms r2
    rule: parse_value_parse_elements_parse_members.induct)
  case (1 s)
  show ?case
  proof
    assume a: "parse_value s = Some (v, r)"
    then obtain c cs where sk: "skip_ws s = c # cs"
      by (subst (asm) parse_value.simps) (auto split: list.splits)
    have le: "length cs < length s" using sk by (rule skip_ws_Cons_length)
    show "length r < length s"
    proof (cases "c = 0x7B")
      case True
      with a sk obtain d ds where sk2: "skip_ws cs = d # ds"
        by (subst (asm) parse_value.simps) (auto split: list.splits)
      show ?thesis
      proof (cases "d = 0x7D")
        case d: True
        with a sk sk2 True have "r = ds"
          by (subst (asm) parse_value.simps) simp
        with skip_ws_Cons_length [OF sk2] le show ?thesis by simp
      next
        case d: False
        with a sk sk2 True obtain ms where "parse_members cs = Some (ms, r)"
          by (subst (asm) parse_value.simps) (auto dest: wrap_Some)
        with "1.IH"(1) [OF sk True sk2 d] le show ?thesis by fastforce
      qed
    next
      case nb: False
      show ?thesis
      proof (cases "c = 0x5B")
        case True
        with nb a sk obtain d ds where sk2: "skip_ws cs = d # ds"
          by (subst (asm) parse_value.simps) (auto split: list.splits)
        show ?thesis
        proof (cases "d = 0x5D")
          case d: True
          with a sk sk2 True nb have "r = ds"
            by (subst (asm) parse_value.simps) simp
          with skip_ws_Cons_length [OF sk2] le show ?thesis by simp
        next
          case d: False
          with a sk sk2 True nb obtain vs where "parse_elements cs = Some (vs, r)"
            by (subst (asm) parse_value.simps) (auto dest: wrap_Some)
          with "1.IH"(2) [OF sk nb True sk2 d] le show ?thesis by fastforce
        qed
      next
        case na: False
        show ?thesis
        proof (cases "c = 0x22")
          case True
          with nb na a sk obtain str where "parse_chars cs = Some (str, r)"
            by (subst (asm) parse_value.simps) (auto dest: wrap_Some)
          from parse_chars_length [OF this] le show ?thesis by simp
        next
          case False
          with nb na a sk have "parse_literal (c # cs) = Some (v, r)"
            by (subst (asm) parse_value.simps) simp
          from parse_literal_length [OF this] le show ?thesis by simp
        qed
      qed
    qed
  qed
next
  case (2 s)
  show ?case
  proof
    assume a: "parse_elements s = Some (vs, r1)"
    then obtain v r where pv: "parse_value s = Some (v, r)"
      by (subst (asm) parse_elements.simps) (auto split: option.splits)
    with a have g: "length r < length s"
      by (subst (asm) parse_elements.simps) (auto split: if_splits)
    from a pv g obtain c cs where sk: "skip_ws r = c # cs"
      by (subst (asm) parse_elements.simps) (auto split: list.splits)
    have le: "length cs < length r" using sk by (rule skip_ws_Cons_length)
    show "length r1 < length s"
    proof (cases "c = 0x2C")
      case True
      with a pv g sk obtain vs' where "parse_elements cs = Some (vs', r1)"
        by (subst (asm) parse_elements.simps) (auto dest: cons_item_Some)
      with "2.IH"(2) [OF pv refl g sk True] le g show ?thesis by fastforce
    next
      case False
      with a pv g sk have "r1 = cs"
        by (subst (asm) parse_elements.simps) (auto split: if_splits)
      with le g show ?thesis by simp
    qed
  qed
next
  case (3 s)
  show ?case
  proof
    assume a: "parse_members s = Some (ms, r2)"
    then obtain q s1 where sk: "skip_ws s = q # s1"
      by (subst (asm) parse_members.simps) (auto split: list.splits)
    with a have q: "q = 0x22"
      by (subst (asm) parse_members.simps) (auto split: if_splits)
    from a sk q obtain k s2 where pc: "parse_chars s1 = Some (k, s2)"
      by (subst (asm) parse_members.simps) (auto split: option.splits)
    from a sk q pc obtain c s3 where sk2: "skip_ws s2 = c # s3"
      by (subst (asm) parse_members.simps) (auto split: list.splits)
    with a sk q pc have c: "c = 0x3A"
      by (subst (asm) parse_members.simps) (auto split: if_splits)
    from a sk q pc sk2 c obtain v r where pv: "parse_value s3 = Some (v, r)"
      by (subst (asm) parse_members.simps) (auto split: option.splits)
    with a sk q pc sk2 c have g: "length r < length s3"
      by (subst (asm) parse_members.simps) (auto split: if_splits)
    from a sk q pc sk2 c pv g obtain d r1 where sk3: "skip_ws r = d # r1"
      by (subst (asm) parse_members.simps) (auto split: list.splits)
    have le: "length s3 < length s"
      using skip_ws_Cons_length [OF sk] parse_chars_length [OF pc] skip_ws_Cons_length [OF sk2]
      by simp
    have le2: "length r1 < length r" using sk3 by (rule skip_ws_Cons_length)
    show "length r2 < length s"
    proof (cases "d = 0x2C")
      case True
      with a sk q pc sk2 c pv g sk3 obtain ms' where "parse_members r1 = Some (ms', r2)"
        by (subst (asm) parse_members.simps) (auto dest: cons_item_Some)
      with "3.IH"(2) [OF sk q pc refl sk2 c pv refl g sk3 True] le le2 g show ?thesis
        by fastforce
    next
      case False
      with a sk q pc sk2 c pv g sk3 have "r2 = r1"
        by (subst (asm) parse_members.simps) (auto split: if_splits)
      with le le2 g show ?thesis by simp
    qed
  qed
qed

lemma parse_value_rest: "parse_value s = Some (v, r) \<Longrightarrow> length r < length s"
  using parse_rest(1) by blast

section \<open>Properties of the storage adapter\<close>

subsection \<open>Reading back what was written\<close>

lemma as_DownloadItem_item_to_json: "as_DownloadItem (item_to_json i) = Some i"
  by (cases "Name i")
     (simp_all add: as_DownloadItem_def item_to_json_def opt_member_def get_prop_def js_def
        required_def optional_def as_string_def)

lemma as_DownloadStatus_status_name: "as_DownloadStatus (JStr (status_name s)) = Some s"
  by (cases s) (simp_all add: as_DownloadStatus_def status_name_def js_def)

lemma get_model_members:
  "get_prop (model_members d) (js ''item'') = Some (item_to_json (item d))"
  "get_prop (model_members d) (js ''itemId'') = None"
  "get_prop (model_members d) (js ''serverId'') = None"
  "get_prop (model_members d) (js ''serverUrl'') = Some (JStr (serverUrl d))"
  "get_prop (model_members d) (js ''apiKey'') = Some (JStr (apiKey d))"
  "get_prop (model_members d) (js ''title'') = None"
  "get_prop (model_members d) (js ''filename'') = Some (JStr (filename d))"
  "get_prop (model_members d) (js ''extension'') = map_option JStr (extension d)"
  "get_prop (model_members d) (js ''downloadUrl'') = Some (JStr (downloadUrl d))"
  "get_prop (model_members d) (js ''isComplete'') = None"
  "get_prop (model_members d) (js ''isNew'') = Some (JBool (isNew d))"
  "get_prop (model_members d) (js ''canPlay'') = Some (JBool (canPlay d))"
  "get_prop (model_members d) (js ''status'') = Some (JStr (status_name (status d)))"
  by (cases "extension d"; simp add: model_members_def opt_member_def get_prop_def js_def)+


lemma model_to_json_members: "model_to_json d = JObj (model_members d)"
  by (simp add: model_to_json_def model_members_def)

lemma as_SerializedDownload_model_to_json:
  "as_SerializedDownload (model_to_json d) = Some (stored_form d)"
  by (cases "extension d")
     (simp_all add: as_SerializedDownload_def model_to_json_members get_model_members
        required_def optional_def as_string_def as_boolean_def stored_form_def
        as_DownloadItem_item_to_json as_DownloadStatus_status_name)

lemma as_entry_model:
  "as_entry (JArr [JStr k, model_to_json d]) = Some (k, stored_form d)"
  by (simp add: as_entry_def as_SerializedDownload_model_to_json)

lemma those_as_entry:
  "those (map as_entry (map (\<lambda>(k, d). JArr [JStr k, model_to_json d]) m))
     = Some (map (\<lambda>(k, d). (k, stored_form d)) m)"
  by (induction m) (auto simp: as_entry_model)

lemma not_invalid_stored_form: "\<not> invalid (stored_form d)"
  by (simp add: invalid_def stored_form_def)

lemma load_model_stored_form: "load_model (stored_form d) = rehydrated d"
  by (simp add: load_model_def stored_form_def new_DownloadModel_def rehydrated_def)

lemma fold_deserialize_stored:
  "distinct (map fst (acc @ m)) \<Longrightarrow>
   fold deserialize_entry (map (\<lambda>(k, d). (k, stored_form d)) m) acc
     = acc @ map (\<lambda>(k, d). (k, rehydrated d)) m"
proof (induction m arbitrary: acc)
  case Nil
  show ?case by simp
next
  case (Cons e m)
  obtain k d where e: "e = (k, d)" by (cases e)
  from Cons.prems e have "\<not> has acc k"
    by (auto simp: has_iff)
  then have s: "set_entry acc k (rehydrated d) = acc @ [(k, rehydrated d)]"
    by (rule set_entry_absent)
  from Cons.prems e have "distinct (map fst ((acc @ [(k, rehydrated d)]) @ m))"
    by simp
  from Cons.IH [OF this] e s show ?case
    by (simp add: deserialize_entry_def not_invalid_stored_form load_model_stored_form)
qed

lemma printable_item: "printable (item_to_json i)"
  by (cases "Name i") (simp_all add: item_to_json_def opt_member_def)

lemma printable_model: "printable (model_to_json d)"
  by (cases "extension d") (simp_all add: model_to_json_def opt_member_def printable_item)

lemma printable_value: "printable (value_to_json v)"
  by (cases "version v")
     (simp_all add: value_to_json_def entries_to_json_def list_all_iff printable_model
        split: prod.splits)

lemma read_value_to_json:
  "read_state (value_to_json v) = Inr (JObj [(js ''downloads'', entries_to_json (state_downloads v))])"
  "read_version (value_to_json v) = Some (version v)"
  "read_downloads (JObj [(js ''downloads'', entries_to_json (state_downloads v))])
     = Some (entries_to_json (state_downloads v))"
  by (cases "version v";
      simp add: read_state_def read_version_def read_downloads_def value_to_json_def
        read_prop_def get_prop_def js_def optional_def as_integer_def)+

lemma stringify_not_Nil: "JSON_stringify v \<noteq> []"
  using stringify_start [of v] by auto

subsection \<open>The typed reading of what JavaScript runs\<close>

lemma JSON_parse_Nil: "JSON_parse [] = None"
  by (simp add: JSON_parse_def parse_value.simps skip_ws_def)

lemma as_entry_Some:
  "as_entry e = Some (k, sd) \<Longrightarrow>
   \<exists>obj. e = JArr [JStr k, obj] \<and> as_SerializedDownload obj = Some sd"
  by (auto simp: as_entry_def split: json.splits list.splits)

lemma destructure_pair:
  "destructure (JArr [k, obj]) = Inr (Some k, Some obj)"
  by (simp add: destructure_def element_def)

lemma as_SerializedDownload_props:
  assumes "as_SerializedDownload obj = Some sd"
  shows "\<exists>ps. obj = JObj ps
    \<and> optional as_DownloadItem (get_prop ps (js ''item'')) = Some (sd_item sd)
    \<and> optional as_string (get_prop ps (js ''itemId'')) = Some (sd_itemId sd)
    \<and> optional as_string (get_prop ps (js ''serverId'')) = Some (sd_serverId sd)
    \<and> required as_string (get_prop ps (js ''serverUrl'')) = Some (sd_serverUrl sd)
    \<and> required as_string (get_prop ps (js ''apiKey'')) = Some (sd_apiKey sd)
    \<and> optional as_string (get_prop ps (js ''title'')) = Some (sd_title sd)
    \<and> required as_string (get_prop ps (js ''filename'')) = Some (sd_filename sd)
    \<and> optional as_string (get_prop ps (js ''extension'')) = Some (sd_extension sd)
    \<and> required as_string (get_prop ps (js ''downloadUrl'')) = Some (sd_downloadUrl sd)
    \<and> optional as_boolean (get_prop ps (js ''isComplete'')) = Some (sd_isComplete sd)
    \<and> required as_boolean (get_prop ps (js ''isNew'')) = Some (sd_isNew sd)
    \<and> optional as_boolean (get_prop ps (js ''canPlay'')) = Some (sd_canPlay sd)
    \<and> optional as_DownloadStatus (get_prop ps (js ''status'')) = Some (sd_status sd)"
proof -
  from assms obtain ps where o: "obj = JObj ps"
    by (cases obj) (simp_all add: as_SerializedDownload_def)
  with assms show ?thesis
    by (auto simp: as_SerializedDownload_def split: Option.bind_splits)
qed

lemma optional_None: "optional f p = Some None \<longleftrightarrow> p = None"
  by (cases p) (auto simp: optional_def)

lemma optional_Some: "optional f p = Some (Some x) \<longleftrightarrow> (\<exists>v. p = Some v \<and> f v = Some x)"
  by (cases p) (auto simp: optional_def)

lemma required_Some: "required f p = Some x \<longleftrightarrow> (\<exists>v. p = Some v \<and> f v = Some x)"
  by (cases p) (auto simp: required_def)

lemma as_string_Some: "as_string v = Some s \<longleftrightarrow> v = JStr s"
  by (cases v) (auto simp: as_string_def)

lemma as_boolean_Some: "as_boolean v = Some b \<longleftrightarrow> v = JBool b"
  by (cases v) (auto simp: as_boolean_def)

lemma status_name_inj: "status_name a = status_name b \<longleftrightarrow> a = b"
  by (cases a; cases b) (simp_all add: status_name_def js_def)

lemma status_name_not_Nil: "status_name a \<noteq> []"
  by (cases a) (simp_all add: status_name_def js_def)

lemma as_DownloadStatus_Some: "as_DownloadStatus v = Some st \<longleftrightarrow> v = JStr (status_name st)"
  by (cases v; cases st) (auto simp: as_DownloadStatus_def status_name_inj split: if_splits)

lemma as_DownloadItem_truthy: "as_DownloadItem v = Some i \<Longrightarrow> truthy (Some v)"
  by (cases v) (simp_all add: as_DownloadItem_def truthy_def)

lemma truthy_string: "truthy (Some (JStr s)) \<longleftrightarrow> s \<noteq> []"
  by (simp add: truthy_def)

lemma truthy_boolean: "truthy (Some (JBool b)) \<longleftrightarrow> b"
  by (simp add: truthy_def)

lemma truthy_None: "\<not> truthy None"
  by (simp add: truthy_def)

lemma optional_string_falsy:
  "optional as_string p = Some x \<Longrightarrow> truthy p \<longleftrightarrow> \<not> falsy x"
  by (cases x) (auto simp: optional_None optional_Some as_string_Some truthy_None
      truthy_string falsy_def)

lemma optional_item_truthy:
  "optional as_DownloadItem p = Some x \<Longrightarrow> truthy p \<longleftrightarrow> x \<noteq> None"
  by (cases x) (auto simp: optional_None optional_Some truthy_None as_DownloadItem_truthy)

lemma js_invalid_typed:
  assumes "as_SerializedDownload obj = Some sd"
  shows "js_invalid obj = invalid sd"
proof -
  from as_SerializedDownload_props [OF assms] obtain ps where
    o: "obj = JObj ps"
    and i: "optional as_DownloadItem (get_prop ps (js ''item'')) = Some (sd_item sd)"
    and a: "optional as_string (get_prop ps (js ''itemId'')) = Some (sd_itemId sd)"
    and b: "optional as_string (get_prop ps (js ''serverId'')) = Some (sd_serverId sd)"
    by blast
  show ?thesis
    unfolding js_invalid_def invalid_def o read_prop_def json.case
    by (simp only: optional_item_truthy [OF i] optional_string_falsy [OF a]
        optional_string_falsy [OF b] not_not)
qed

lemma js_load_item:
  "js_item (js_load obj) =
     (if truthy (read_prop obj (js ''item'')) then GivenItem (the (read_prop obj (js ''item'')))
      else BuiltItem (read_prop obj (js ''itemId'')) (read_prop obj (js ''serverId''))
             (read_prop obj (js ''title'')))"
  by (simp add: js_load_def Let_def new_JsModel_def truthy_None split: option.splits)

lemma js_load_status:
  "js_status (js_load obj) =
     (if truthy (read_prop obj (js ''status'')) then
        (if the (read_prop obj (js ''status'')) \<noteq> JStr (status_name Downloading)
         then the (read_prop obj (js ''status'')) else JStr (status_name Queued))
      else if truthy (read_prop obj (js ''isComplete'')) then JStr (status_name Complete)
      else JStr (status_name Queued))"
  by (simp add: js_load_def Let_def new_JsModel_def truthy_None split: option.splits)

lemma js_load_fields:
  "js_serverUrl (js_load obj) = read_prop obj (js ''serverUrl'')"
  "js_apiKey (js_load obj) = read_prop obj (js ''apiKey'')"
  "js_filename (js_load obj) = read_prop obj (js ''filename'')"
  "js_downloadUrl (js_load obj) = read_prop obj (js ''downloadUrl'')"
  "js_extension (js_load obj) = read_prop obj (js ''extension'')"
  "js_isNew (js_load obj) = read_prop obj (js ''isNew'')"
  "js_canPlay (js_load obj) =
     (case read_prop obj (js ''canPlay'') of Some (JBool b) \<Rightarrow> b | _ \<Rightarrow> True)"
  by (simp_all add: js_load_def Let_def new_JsModel_def split: option.splits)

lemma load_model_fields:
  "item (load_model sd) =
     (case sd_item sd of
        Some i \<Rightarrow> i
      | None \<Rightarrow> \<lparr>Id = the (sd_itemId sd), ServerId = the (sd_serverId sd), Name = sd_title sd\<rparr>)"
  "serverUrl (load_model sd) = sd_serverUrl sd"
  "apiKey (load_model sd) = sd_apiKey sd"
  "filename (load_model sd) = sd_filename sd"
  "downloadUrl (load_model sd) = sd_downloadUrl sd"
  "extension (load_model sd) = sd_extension sd"
  "isNew (load_model sd) = sd_isNew sd"
  "canPlay (load_model sd) = (case sd_canPlay sd of Some b \<Rightarrow> b | None \<Rightarrow> True)"
  "status (load_model sd) =
     (case sd_status sd of
        Some s \<Rightarrow> if s \<noteq> Downloading then s else Queued
      | None \<Rightarrow> if sd_isComplete sd = Some True then Complete else Queued)"
  by (simp_all add: load_model_def Let_def new_DownloadModel_def split: option.splits)

lemma typed_item_load:
  assumes i: "optional as_DownloadItem (read_prop obj (js ''item'')) = Some (sd_item sd)"
    and a: "optional as_string (read_prop obj (js ''itemId'')) = Some (sd_itemId sd)"
    and b: "optional as_string (read_prop obj (js ''serverId'')) = Some (sd_serverId sd)"
    and t: "optional as_string (read_prop obj (js ''title'')) = Some (sd_title sd)"
    and v: "\<not> invalid sd"
  shows "typed_item (js_item (js_load obj)) = Some (item (load_model sd))"
proof (cases "sd_item sd")
  case None
  with i have n: "read_prop obj (js ''item'') = None"
    by (simp add: optional_None)
  from v None obtain x y where x: "sd_itemId sd = Some x" and y: "sd_serverId sd = Some y"
    by (auto simp: invalid_def falsy_def)
  from a x have ax: "read_prop obj (js ''itemId'') = Some (JStr x)"
    by (auto simp: optional_Some as_string_Some)
  from b y have by': "read_prop obj (js ''serverId'') = Some (JStr y)"
    by (auto simp: optional_Some as_string_Some)
  show ?thesis
    using None n x y ax by' t
    by (simp add: js_load_item load_model_fields truthy_None typed_item_def required_def
        as_string_def)
next
  case (Some d)
  with i obtain w where w: "read_prop obj (js ''item'') = Some w" and d: "as_DownloadItem w = Some d"
    by (auto simp: optional_Some)
  show ?thesis
    using Some w d as_DownloadItem_truthy [OF d]
    by (simp add: js_load_item load_model_fields typed_item_def)
qed

lemma typed_status_load:
  assumes s: "optional as_DownloadStatus (read_prop obj (js ''status'')) = Some (sd_status sd)"
    and c: "optional as_boolean (read_prop obj (js ''isComplete'')) = Some (sd_isComplete sd)"
  shows "as_DownloadStatus (js_status (js_load obj)) = Some (status (load_model sd))"
proof -
  have t: "truthy (read_prop obj (js ''isComplete'')) \<longleftrightarrow> sd_isComplete sd = Some True"
    using c by (cases "sd_isComplete sd")
      (auto simp: optional_None optional_Some as_boolean_Some truthy_None truthy_boolean)
  show ?thesis
  proof (cases "sd_status sd")
    case None
    with s have "read_prop obj (js ''status'') = None"
      by (simp add: optional_None)
    with None t show ?thesis
      by (simp add: js_load_status load_model_fields truthy_None as_DownloadStatus_Some)
  next
    case (Some st)
    with s have "read_prop obj (js ''status'') = Some (JStr (status_name st))"
      by (auto simp: optional_Some as_DownloadStatus_Some)
    with Some show ?thesis
      by (simp add: js_load_status load_model_fields truthy_string status_name_not_Nil
          status_name_inj as_DownloadStatus_Some)
  qed
qed

lemma typed_canPlay_load:
  assumes "optional as_boolean (read_prop obj (js ''canPlay'')) = Some (sd_canPlay sd)"
  shows "js_canPlay (js_load obj) = canPlay (load_model sd)"
  using assms
  by (cases "sd_canPlay sd")
    (auto simp: optional_None optional_Some as_boolean_Some js_load_fields load_model_fields)

lemma js_load_typed:
  assumes "as_SerializedDownload obj = Some sd" and "\<not> invalid sd"
  shows "typed_model (js_load obj) = Some (load_model sd)"
proof -
  from as_SerializedDownload_props [OF assms(1)] obtain ps where o: "obj = JObj ps"
    and p: "optional as_DownloadItem (get_prop ps (js ''item'')) = Some (sd_item sd)"
    "optional as_string (get_prop ps (js ''itemId'')) = Some (sd_itemId sd)"
    "optional as_string (get_prop ps (js ''serverId'')) = Some (sd_serverId sd)"
    "required as_string (get_prop ps (js ''serverUrl'')) = Some (sd_serverUrl sd)"
    "required as_string (get_prop ps (js ''apiKey'')) = Some (sd_apiKey sd)"
    "optional as_string (get_prop ps (js ''title'')) = Some (sd_title sd)"
    "required as_string (get_prop ps (js ''filename'')) = Some (sd_filename sd)"
    "optional as_string (get_prop ps (js ''extension'')) = Some (sd_extension sd)"
    "required as_string (get_prop ps (js ''downloadUrl'')) = Some (sd_downloadUrl sd)"
    "optional as_boolean (get_prop ps (js ''isComplete'')) = Some (sd_isComplete sd)"
    "required as_boolean (get_prop ps (js ''isNew'')) = Some (sd_isNew sd)"
    "optional as_boolean (get_prop ps (js ''canPlay'')) = Some (sd_canPlay sd)"
    "optional as_DownloadStatus (get_prop ps (js ''status'')) = Some (sd_status sd)"
    by blast
  have r: "\<And>n. get_prop ps n = read_prop obj n"
    by (simp add: o read_prop_def)
  note q = p [unfolded r]
  have e: "load_model sd =
      \<lparr>item = item (load_model sd), serverUrl = sd_serverUrl sd, apiKey = sd_apiKey sd,
       filename = sd_filename sd, downloadUrl = sd_downloadUrl sd,
       status = status (load_model sd), canPlay = canPlay (load_model sd),
       extension = sd_extension sd, isNew = sd_isNew sd\<rparr>"
    by (simp add: load_model_fields(2-7) [symmetric])
  show ?thesis
    unfolding typed_model_def js_load_fields(1-6)
      typed_item_load [OF q(1) q(2) q(3) q(6) assms(2)] q(4) q(5) q(7) q(8) q(9) q(11)
      typed_status_load [OF q(13) q(10)] typed_canPlay_load [OF q(12)]
    by (subst e) simp
qed

lemma typed_entry_string:
  "typed_entry (Some (JStr k), jm) = map_option (Pair k) (typed_model jm)"
  by (simp add: typed_entry_def)

lemma typed_entry_fst:
  "typed_entry e = Some (k, d) \<Longrightarrow> fst e = Some (JStr k)"
  by (auto simp: typed_entry_def split: option.splits json.splits)

lemma typed_entry_snd:
  "typed_entry e = Some (k, d) \<Longrightarrow> typed_model (snd e) = Some d"
  by (auto simp: typed_entry_def split: option.splits json.splits)

lemma same_key_string: "same_key (Some (JStr a)) (Some (JStr b)) \<longleftrightarrow> a = b"
  by (simp add: same_key_def)

lemma those_Cons:
  "those (x # xs) = Some ys \<longleftrightarrow> (\<exists>y zs. x = Some y \<and> those xs = Some zs \<and> ys = y # zs)"
  by (cases x) (auto split: option.splits)

lemma js_set_typed:
  assumes "those (map typed_entry m) = Some tm" and "typed_model jm = Some dm"
  shows "those (map typed_entry (js_set m (Some (JStr k)) jm)) = Some (set_entry tm k dm)"
  using assms
proof (induction m arbitrary: tm)
  case Nil
  then show ?case
    by (simp add: typed_entry_string)
next
  case (Cons e m)
  from Cons.prems(1) have "those (typed_entry e # map typed_entry m) = Some tm"
    by simp
  then obtain y zs where y: "typed_entry e = Some y"
    and zs: "those (map typed_entry m) = Some zs" and tm: "tm = y # zs"
    unfolding those_Cons by blast
  obtain k' d' where yk: "y = (k', d')"
    by (cases y)
  from y yk have f: "fst e = Some (JStr k')"
    by (simp add: typed_entry_fst)
  show ?case
  proof (cases "k' = k")
    case True
    with f y yk zs tm Cons.prems(2) show ?thesis
      by (simp add: same_key_string typed_entry_string)
  next
    case False
    with f y yk zs tm Cons.IH [OF zs Cons.prems(2)] show ?thesis
      by (simp add: same_key_string)
  qed
qed

lemma callback_typed:
  assumes "as_entry e = Some (k, sd)"
  shows "\<exists>obj. as_SerializedDownload obj = Some sd \<and>
     callback e (m, out) =
       (if invalid sd then Inr (m, out @ [(Some (JStr k), obj)])
        else Inr (js_set m (Some (JStr k)) (js_load obj), out))"
proof -
  from as_entry_Some [OF assms] obtain obj where e: "e = JArr [JStr k, obj]"
    and sd: "as_SerializedDownload obj = Some sd"
    by blast
  from as_SerializedDownload_props [OF sd] obtain ps where o: "obj = JObj ps"
    by blast
  have "callback e (m, out) =
       (if js_invalid obj then Inr (m, out @ [(Some (JStr k), obj)])
        else Inr (js_set m (Some (JStr k)) (js_load obj), out))"
    by (simp add: callback_def e destructure_pair o)
  with sd show ?thesis
    by (auto simp: js_invalid_typed [OF sd])
qed

lemma forEach_typed:
  assumes "those (map as_entry es) = Some tes" and "those (map typed_entry m) = Some tm"
  shows "\<exists>m' out'. forEach es (m, out) = Inr (m', out')
     \<and> those (map typed_entry m') = Some (fold deserialize_entry tes tm)
     \<and> length out' = length out + length (filter (\<lambda>e. invalid (snd e)) tes)"
  using assms
proof (induction es arbitrary: tes m tm out)
  case Nil
  then show ?case
    by simp
next
  case (Cons e es)
  from Cons.prems(1) have "those (as_entry e # map as_entry es) = Some tes"
    by simp
  then obtain y zs where y: "as_entry e = Some y"
    and zs: "those (map as_entry es) = Some zs" and tes: "tes = y # zs"
    unfolding those_Cons by blast
  obtain k sd where yk: "y = (k, sd)"
    by (cases y)
  from callback_typed [of e k sd m out] y yk obtain obj where
    sd: "as_SerializedDownload obj = Some sd"
    and c: "callback e (m, out) =
       (if invalid sd then Inr (m, out @ [(Some (JStr k), obj)])
        else Inr (js_set m (Some (JStr k)) (js_load obj), out))"
    by blast
  show ?case
  proof (cases "invalid sd")
    case True
    from Cons.IH [OF zs Cons.prems(2), of "out @ [(Some (JStr k), obj)]"] True c tes yk
    show ?thesis
      by (auto simp: deserialize_entry_def)
  next
    case False
    have t: "those (map typed_entry (js_set m (Some (JStr k)) (js_load obj)))
        = Some (set_entry tm k (load_model sd))"
      by (rule js_set_typed [OF Cons.prems(2) js_load_typed [OF sd False]])
    from Cons.IH [OF zs t, of out] False c tes yk show ?thesis
      by (auto simp: deserialize_entry_def)
  qed
qed

lemma deserialize_parsed:
  assumes p: "JSON_parse s = Some v" and st: "read_state v = Inr st"
    and ver: "read_version v = Some ver" and d: "read_downloads st = Some (JArr xs)"
    and xs: "those (map as_entry xs) = Some es"
  shows "\<exists>out. deserialize (Some s)
      = Inr (\<lparr>state_downloads = fold deserialize_entry es [], version = ver\<rparr>, out)
     \<and> length out = length (filter (\<lambda>e. invalid (snd e)) es)"
proof -
  from p have n: "s \<noteq> []"
    by (auto simp: JSON_parse_Nil)
  from forEach_typed [OF xs, of "[]" "[]" "[]"] obtain m' out' where
    f: "forEach xs ([], []) = Inr (m', out')"
    and t: "those (map typed_entry m') = Some (fold deserialize_entry es [])"
    and l: "length out' = length (filter (\<lambda>e. invalid (snd e)) es)"
    by auto
  from p n st d f t ver l show ?thesis
    by (simp add: deserialize_def deserialize_js_def deserialize_value_def typed_value_def
        read_version_def)
qed

lemma deserialize_stored:
  assumes "stored_entries s = Some es"
  shows "\<exists>ver out. deserialize (Some s)
      = Inr (\<lparr>state_downloads = fold deserialize_entry es [], version = ver\<rparr>, out)"
proof -
  from assms obtain v st ver xs where p: "JSON_parse s = Some v"
    and st: "read_state v = Inr st" and ver: "read_version v = Some ver"
    and d: "read_downloads st = Some (JArr xs)" and xs: "those (map as_entry xs) = Some es"
    by (auto simp: stored_entries_def split: option.splits sum.splits json.splits)
  from deserialize_parsed [OF this] show ?thesis
    by blast
qed

subsection \<open>What deserialize loads\<close>

lemma map_of_set_entry: "map_of (set_entry m k v) = (map_of m)(k \<mapsto> v)"
  by (induction m) (auto simp: fun_eq_iff)

lemma fold_deserialize_entry:
  "fold deserialize_entry es m = fold (\<lambda>e m. set_entry m (fst e) (snd e)) (loaded es) m"
  by (induction es arbitrary: m)
     (auto simp: deserialize_entry_def loaded_def)

lemma map_of_fold_set_entry:
  "map_of (fold (\<lambda>e m. set_entry m (fst e) (snd e)) xs m) = map_of m ++ map_of (rev xs)"
proof (induction xs arbitrary: m)
  case Nil
  show ?case by simp
next
  case (Cons x xs)
  obtain k v where x: "x = (k, v)" by (cases x)
  let ?f = "\<lambda>e m. set_entry m (fst e) (snd e)"
  have "map_of (fold ?f (x # xs) m) = map_of (fold ?f xs (set_entry m k v))"
    using x by simp
  also have "\<dots> = map_of (set_entry m k v) ++ map_of (rev xs)"
    by (rule Cons.IH)
  also have "\<dots> = (map_of m)(k \<mapsto> v) ++ map_of (rev xs)"
    by (simp only: map_of_set_entry)
  also have "\<dots> = map_of m ++ ([k \<mapsto> v] ++ map_of (rev xs))"
    by (rule ext) (simp add: map_add_def split: option.splits)
  also have "\<dots> = map_of m ++ map_of (rev (x # xs))"
    using x by simp
  finally show ?case .
qed

lemma keys_fold_set_entry:
  "fst ` set (fold (\<lambda>e m. set_entry m (fst e) (snd e)) xs m) = fst ` set m \<union> fst ` set xs"
  by (induction xs arbitrary: m) (auto simp: set_entry_keys)

lemma map_of_loaded_last:
  assumes "\<not> invalid obj" and "k \<notin> fst ` set after"
  shows "map_of (rev (loaded (before @ (k, obj) # after))) k = Some (load_model obj)"
proof -
  have "k \<notin> fst ` set (rev (loaded after))"
    using assms(2) by (force simp: loaded_def)
  then have "map_of (rev (loaded after)) k = None"
    by (simp add: map_of_eq_None_iff)
  with assms(1) show ?thesis
    by (simp add: loaded_def map_add_def)
qed

lemma sample_entries:
  "stored_entries sample_text = Some [(js ''a'', entry_a), (js ''b'', entry_b), (js ''c'', entry_c)]"
  by code_simp

lemma sample_loaded: 
  "\<not> invalid entry_a" "invalid entry_b" "\<not> invalid entry_c"
  by (simp_all add: invalid_def entry_a_def entry_b_def entry_c_def falsy_def js_def)

lemma sample_keys: "js ''a'' \<noteq> js ''b''" "js ''a'' \<noteq> js ''c''" "js ''b'' \<noteq> js ''c''"
  by (simp_all add: js_def)

lemma map_of_deserialized:
  "map_of (fold deserialize_entry es []) = map_of (rev (loaded es))"
  by (simp add: fold_deserialize_entry map_of_fold_set_entry)
subsection \<open>What deserialize loads from any parsed text\<close>

lemma destructure_error: "destructure e = Inl err \<Longrightarrow> err = TypeError"
  by (cases e) (simp_all add: destructure_def)

lemma callback_pair:
  assumes "pair_of e = Some (k, obj)"
  shows "callback e (m, out) =
     (if js_invalid obj then Inr (m, out @ [(k, obj)])
      else Inr (js_set m k (js_load obj), out))"
  using assms
  by (auto simp: pair_of_def callback_def split: sum.splits option.splits json.splits)

lemma callback_no_pair:
  assumes "pair_of e = None"
  shows "callback e acc = Inl TypeError"
  using assms
  by (auto simp: pair_of_def callback_def dest: destructure_error
      split: sum.splits option.splits json.splits)


lemma forEach_no_pairs:
  assumes "those (map pair_of es) = None"
  shows "forEach es acc = Inl TypeError"
  using assms
proof (induction es arbitrary: acc)
  case Nil
  then show ?case
    by simp
next
  case (Cons e es)
  show ?case
  proof (cases "pair_of e")
    case None
    then show ?thesis
      by (simp add: callback_no_pair)
  next
    case (Some y)
    obtain k obj where yk: "y = (k, obj)"
      by (cases y)
    obtain m out where acc: "acc = (m, out)"
      by (cases acc)
    from Cons.prems Some have "those (map pair_of es) = None"
      by (simp split: option.splits)
    from Cons.IH [OF this] Some yk acc show ?thesis
      by (simp add: callback_pair)
  qed
qed















section \<open>The claims about the store\<close>

lemma entries_add_all_one_movie:
  "entries (add_all [song, movie, song] one_movie) = [(key movie, movie), (key song, song)]"
  using keys_differ
  by (simp add: one_movie_eq add_def priv_get_def Map_has_def has_def
      new_Map_def Map_set_def priv_set_def entries_def)

text \<open>
  C1 (key uniqueness). From any store the program can hold, after any sequence of
  \<open>add\<close> calls the registry holds every key at most once: the keys of its entries are
  distinct, and the entries with a given key number at most one. An \<open>add\<close> of a record
  whose key is present leaves the store as it is: the size is the same and the record
  under the key is the one that was there.
\<close>

theorem add_key_uniqueness:
  assumes "wf_store st"
  shows "distinct_keys (entries (add_all ds st))
       \<and> length (filter (\<lambda>e. fst e = k) (entries (add_all ds st))) \<le> 1
       \<and> (has (entries st) (key d) \<longrightarrow>
            snd (add d st) = st
          \<and> length (entries (snd (add d st))) = length (entries st)
          \<and> map_of (entries (snd (add d st))) (key d) = map_of (entries st) (key d))"
proof -
  have w: "wf_store (add_all ds st)"
    using assms by (rule wf_store_add_all)
  then have dk: "distinct_keys (entries (add_all ds st))"
    by (rule wf_store_entries)
  have "has (entries st) (key d) \<Longrightarrow> snd (add d st) = st"
    by (simp add: add_present Map_has_def entries_def)
  with dk distinct_keys_count [OF dk, of k] show ?thesis by simp
qed

text \<open>
  The store holding the movie; adding the song, the movie and the song again gives two
  entries, and adding the movie to the store that holds it changes nothing.
\<close>

theorem add_key_uniqueness_witness:
  "wf_store one_movie
   \<and> entries (add_all [song, movie, song] one_movie) = [(key movie, movie), (key song, song)]
   \<and> distinct_keys (entries (add_all [song, movie, song] one_movie))
   \<and> length (filter (\<lambda>e. fst e = key movie) (entries (add_all [song, movie, song] one_movie))) \<le> 1
   \<and> has (entries one_movie) (key movie)
   \<and> snd (add movie one_movie) = one_movie
   \<and> length (entries (snd (add movie one_movie))) = 1"
proof -
  have h: "has (entries one_movie) (key movie)"
    by (simp add: entries_one_movie has_def)
  from add_key_uniqueness [OF wf_one_movie, of "[song, movie, song]" "key movie" movie] h
  show ?thesis
    by (simp add: wf_one_movie entries_add_all_one_movie entries_one_movie del: add_all.simps)
qed


text \<open>
  C5 as stated fails: \<open>add\<close> returns nothing (\<open>void\<close>, line 25), so the call that
  inserts and the call that finds the key present return the same value.
\<close>

theorem add_returns_nothing_counterexample:
  "fst (add movie initialStore) = fst (add movie one_movie)
   \<and> entries initialStore = []
   \<and> entries (snd (add movie initialStore)) = [(key movie, movie)]
   \<and> has (entries one_movie) (key movie)
   \<and> snd (add movie one_movie) = one_movie"
proof -
  have h: "Map_has (downloads one_movie) (key movie) one_movie"
    by (simp add: one_movie_eq Map_has_def has_def)
  have "entries (snd (add movie initialStore)) = [(key movie, movie)]"
    using entries_one_movie by (simp add: one_movie_def)
  with add_present [OF h] show ?thesis
    by (simp add: entries_one_movie has_def) (simp add: entries_def initialStore_def)
qed

text \<open>
  C5, amended. \<open>add\<close> returns no value. When the key is absent the record is inserted
  as the last entry and one state is committed; when the key is present the store is left
  as it is, without an error. The return value does not tell the two apart.
\<close>

theorem add_inserts_if_absent:
  "fst (add d st) = ()
   \<and> (\<not> has (entries st) (key d) \<longrightarrow>
        entries (snd (add d st)) = entries st @ [(key d, d)]
      \<and> commits (snd (add d st)) = commits st @ [downloads (snd (add d st))])
   \<and> (has (entries st) (key d) \<longrightarrow> snd (add d st) = st)"
proof -
  have a: "\<not> has (entries st) (key d) \<Longrightarrow>
      entries (snd (add d st)) = entries st @ [(key d, d)]
      \<and> commits (snd (add d st)) = commits st @ [downloads (snd (add d st))]"
    by (simp add: add_absent Map_has_def entries_def set_entry_absent)
  have b: "has (entries st) (key d) \<Longrightarrow> snd (add d st) = st"
    by (simp add: add_present Map_has_def entries_def)
  from a b show ?thesis by simp
qed

text \<open>
  Adding the song to the store holding the movie inserts it; adding the movie does nothing.
\<close>

theorem add_inserts_if_absent_witness:
  "fst (add song one_movie) = ()
   \<and> \<not> has (entries one_movie) (key song)
   \<and> entries (snd (add song one_movie)) = [(key movie, movie), (key song, song)]
   \<and> commits (snd (add song one_movie)) = [1, 2]
   \<and> has (entries one_movie) (key movie)
   \<and> snd (add movie one_movie) = one_movie"
proof -
  have a: "\<not> has (entries one_movie) (key song)"
    using keys_differ by (simp add: entries_one_movie has_def)
  have b: "has (entries one_movie) (key movie)"
    by (simp add: entries_one_movie has_def)
  have c: "commits one_movie = [1]" "heap one_movie = [[], [(key movie, movie)]]"
    by (simp_all add: one_movie_eq)
  have d: "downloads (snd (add song one_movie)) = 2"
    using a by (simp add: add_absent Map_has_def entries_def c)
  from add_inserts_if_absent [of song one_movie] add_inserts_if_absent [of movie one_movie] a b
  show ?thesis
    by (simp add: entries_one_movie c d)
qed

text \<open>
  C6 (idempotent delete). When the key of the record is present, \<open>delete\<close> returns true
  and the registry afterwards holds the other entries, in their order, and no longer the
  key; deleting again at once returns false and leaves the entries as they are. When the
  key is absent, \<open>delete\<close> returns false and the entries are unchanged.
\<close>

theorem delete_idempotent:
  assumes "wf_store st"
  shows "(has (entries st) (key d) \<longrightarrow>
      fst (delete d st) = True
    \<and> entries (snd (delete d st)) = filter (\<lambda>e. fst e \<noteq> key d) (entries st)
    \<and> \<not> has (entries (snd (delete d st))) (key d)
    \<and> fst (delete d (snd (delete d st))) = False
    \<and> entries (snd (delete d (snd (delete d st)))) = entries (snd (delete d st)))
   \<and> (\<not> has (entries st) (key d) \<longrightarrow>
      fst (delete d st) = False \<and> entries (snd (delete d st)) = entries st)"
proof -
  have absent: "fst (delete d s) = False \<and> entries (snd (delete d s)) = entries s"
    if "\<not> has (entries s) (key d)" and "downloads s < length (heap s)" for s
    using that by (simp add: delete_eq) (simp add: entries_def nth_append)
  have valid: "downloads st < length (heap st)"
    using assms by (simp add: wf_store_def)
  have present: "fst (delete d st) = True
      \<and> entries (snd (delete d st)) = filter (\<lambda>e. fst e \<noteq> key d) (entries st)
      \<and> \<not> has (entries (snd (delete d st))) (key d)
      \<and> downloads (snd (delete d st)) < length (heap (snd (delete d st)))"
    if "has (entries st) (key d)"
  proof -
    have e: "entries (snd (delete d st)) = delete_entry (entries st) (key d)"
      using that by (simp add: delete_eq) (simp add: entries_def)
    have "fst (delete d st)"
      and "downloads (snd (delete d st)) < length (heap (snd (delete d st)))"
      using that by (simp_all add: delete_eq)
    moreover have "\<not> has (entries (snd (delete d st))) (key d)"
      by (simp add: e has_delete_entry)
    moreover have "entries (snd (delete d st)) = filter (\<lambda>e. fst e \<noteq> key d) (entries st)"
      by (simp add: e delete_entry_def)
    ultimately show ?thesis by blast
  qed
  show ?thesis
  proof (cases "has (entries st) (key d)")
    case True
    from present [OF True]
    have "\<not> has (entries (snd (delete d st))) (key d)"
      and "downloads (snd (delete d st)) < length (heap (snd (delete d st)))"
      by blast+
    from absent [OF this] present [OF True] True show ?thesis by blast
  next
    case False
    with absent [OF False valid] show ?thesis by simp
  qed
qed

text \<open>
  Deleting the movie twice from the store that holds it, and deleting the song from it.
\<close>

theorem delete_idempotent_witness:
  "has (entries one_movie) (key movie)
   \<and> fst (delete movie one_movie) = True
   \<and> entries (snd (delete movie one_movie)) = []
   \<and> fst (delete movie (snd (delete movie one_movie))) = False
   \<and> entries (snd (delete movie (snd (delete movie one_movie)))) = []
   \<and> \<not> has (entries one_movie) (key song)
   \<and> fst (delete song one_movie) = False
   \<and> entries (snd (delete song one_movie)) = [(key movie, movie)]
   \<and> wf_store one_movie"
proof -
  have a: "\<not> has (entries one_movie) (key song)"
    using keys_differ by (simp add: entries_one_movie has_def)
  have b: "has (entries one_movie) (key movie)"
    by (simp add: entries_one_movie has_def)
  from delete_idempotent [OF wf_one_movie, of movie] delete_idempotent [OF wf_one_movie, of song] a b
  show ?thesis
    by (simp add: entries_one_movie wf_one_movie)
qed

text \<open>
  C9 (a no-op sets no state). An \<open>add\<close> whose key is present returns the store
  itself. A \<open>delete\<close> whose key is absent returns false, the state's reference and the
  list of commits are unchanged (no call of \<open>_set\<close>), and every Map instance that
  existed is unchanged: the only trace is the copy made on line 161, which nothing
  refers to.
\<close>

theorem noop_sets_no_state:
  "(has (entries st) (key d) \<longrightarrow> snd (add d st) = st)
   \<and> (\<not> has (entries st) (key d) \<longrightarrow>
        fst (delete d st) = False
      \<and> downloads (snd (delete d st)) = downloads st
      \<and> commits (snd (delete d st)) = commits st
      \<and> take (length (heap st)) (heap (snd (delete d st))) = heap st)"
  by (simp add: add_present Map_has_def entries_def delete_eq)

text \<open>
  Adding the movie to the store that holds it; deleting the song from it.
\<close>

theorem noop_sets_no_state_witness:
  "has (entries one_movie) (key movie)
   \<and> snd (add movie one_movie) = one_movie
   \<and> \<not> has (entries one_movie) (key song)
   \<and> fst (delete song one_movie) = False
   \<and> downloads (snd (delete song one_movie)) = 1
   \<and> commits (snd (delete song one_movie)) = [1]
   \<and> take 2 (heap (snd (delete song one_movie))) = [[], [(key movie, movie)]]"
proof -
  have a: "\<not> has (entries one_movie) (key song)"
    using keys_differ by (simp add: entries_one_movie has_def)
  have b: "has (entries one_movie) (key movie)"
    by (simp add: entries_one_movie has_def)
  have c: "commits one_movie = [1]" "heap one_movie = [[], [(key movie, movie)]]"
    "downloads one_movie = 1"
    by (simp_all add: one_movie_eq)
  from noop_sets_no_state [of one_movie movie] noop_sets_no_state [of one_movie song] a b
  show ?thesis
    by (simp add: c numeral_2_eq_2)
qed

text \<open>
  C10 (copy on write). Whatever \<open>add\<close>, \<open>update\<close>, \<open>delete\<close> and \<open>reset\<close> do,
  every Map instance allocated before the call has the entries it had: a snapshot taken
  earlier is not affected. The reference they install is that of a Map allocated by the
  call (\<open>update\<close> and \<open>reset\<close> always install one; \<open>add\<close> and \<open>delete\<close>
  install one or leave the state as it is).
\<close>

theorem copy_on_write:
  assumes "r < length (heap st)"
  shows "heap (snd (add d st)) ! r = heap st ! r
       \<and> heap (snd (update d st)) ! r = heap st ! r
       \<and> heap (snd (delete d st)) ! r = heap st ! r
       \<and> heap (snd (reset st)) ! r = heap st ! r
       \<and> (snd (add d st) = st \<or> downloads (snd (add d st)) = length (heap st))
       \<and> downloads (snd (update d st)) = length (heap st)
       \<and> (downloads (snd (delete d st)) = downloads st
            \<and> commits (snd (delete d st)) = commits st
          \<or> downloads (snd (delete d st)) = length (heap st))
       \<and> downloads (snd (reset st)) = length (heap st)"
proof -
  have "heap (snd (add d st)) ! r = heap st ! r"
    "snd (add d st) = st \<or> downloads (snd (add d st)) = length (heap st)"
    using assms
    by (cases "Map_has (downloads st) (key d) st"; simp add: add_present add_absent nth_append)+
  moreover have "heap (snd (delete d st)) ! r = heap st ! r"
    "downloads (snd (delete d st)) = downloads st \<and> commits (snd (delete d st)) = commits st
       \<or> downloads (snd (delete d st)) = length (heap st)"
    using assms by (simp_all add: delete_eq nth_append)
  ultimately show ?thesis
    using assms by (simp add: update_eq reset_eq nth_append)
qed

text \<open>
  The Map instance 1 of the store holding the movie, after each of the four actions.
\<close>

theorem copy_on_write_witness:
  "(1::nat) < length (heap one_movie)
   \<and> heap one_movie ! 1 = [(key movie, movie)]
   \<and> heap (snd (add song one_movie)) ! 1 = [(key movie, movie)]
   \<and> heap (snd (update song one_movie)) ! 1 = [(key movie, movie)]
   \<and> heap (snd (delete movie one_movie)) ! 1 = [(key movie, movie)]
   \<and> heap (snd (reset one_movie)) ! 1 = [(key movie, movie)]
   \<and> downloads (snd (update song one_movie)) = 2
   \<and> downloads (snd (reset one_movie)) = 2
   \<and> entries (snd (delete movie one_movie)) = []"
proof -
  have c: "heap one_movie = [[], [(key movie, movie)]]"
    by (simp add: one_movie_eq)
  have l: "1 < length (heap one_movie)"
    by (simp add: c)
  have b: "has (entries one_movie) (key movie)"
    by (simp add: entries_one_movie has_def)
  have e: "entries (snd (delete movie one_movie)) = []"
    by (simp add: delete_eq one_movie_eq entries_def has_def delete_entry_def)
  from copy_on_write [OF l, of song] copy_on_write [OF l, of movie] show ?thesis
    by (simp add: c e)
qed

section \<open>The claims about the storage adapter\<close>

lemma stringify_busy_value: "JSON_stringify (value_to_json busy_value) = busy_text"
  by code_simp

lemma deserialize_busy_text: "deserialize (Some busy_text) = Inr (calm_value, [])"
  by code_simp

lemma getItem_setItem:
  assumes "distinct_keys (state_downloads v)"
  shows "getItem name (setItem name v storage)
       = Inr (\<lparr>state_downloads = map (\<lambda>(k, d). (k, rehydrated d)) (state_downloads v),
               version = version v\<rparr>, [])"
proof -
  let ?es = "map (\<lambda>(k, d). (k, stored_form d)) (state_downloads v)"
  have p: "JSON_parse (JSON_stringify (value_to_json v)) = Some (value_to_json v)"
    by (simp add: JSON_parse_stringify printable_value)
  have d: "read_downloads (JObj [(js ''downloads'', entries_to_json (state_downloads v))])
      = Some (JArr (map (\<lambda>(k, d). JArr [JStr k, model_to_json d]) (state_downloads v)))"
    using read_value_to_json(3) [of v] by (simp only: entries_to_json_def)
  from deserialize_parsed [OF p read_value_to_json(1) read_value_to_json(2) d those_as_entry]
  obtain out where r: "deserialize (Some (JSON_stringify (value_to_json v)))
      = Inr (\<lparr>state_downloads = fold deserialize_entry ?es [], version = version v\<rparr>, out)"
    and l: "length out = length (filter (\<lambda>e. invalid (snd e)) ?es)"
    by blast
  have "filter (\<lambda>e. invalid (snd e)) ?es = []"
    by (auto simp: filter_empty_conv not_invalid_stored_form)
  with l have out: "out = []"
    by simp
  from assms have "distinct (map fst ([] @ state_downloads v))"
    by (simp add: distinct_keys_def)
  from fold_deserialize_stored [OF this] have
    "fold deserialize_entry ?es [] = map (\<lambda>(k, d). (k, rehydrated d)) (state_downloads v)"
    by simp
  with r out show ?thesis
    by (simp add: getItem_def setItem_def)
qed

lemma distinct_busy_value: "distinct_keys (state_downloads busy_value)"
  using keys_differ by (simp add: busy_value_def distinct_keys_def)

lemma rehydrated_examples:
  "rehydrated movie = movie" "rehydrated downloading_song = song" "rehydrated song = song"
  by (simp_all add: rehydrated_def movie_def song_def downloading_song_def new_DownloadModel_def)

lemma map_rehydrated_id:
  "\<forall>e \<in> set m. status (snd e) \<noteq> Downloading \<Longrightarrow> map (\<lambda>(k, d). (k, rehydrated d)) m = m"
  by (induction m) (auto simp: rehydrated_def)

text \<open>
  C2 as stated fails: a record whose status is Downloading does not come back as it was
  written. For the value holding the movie and the song that is downloading,
  \<open>setItem\<close> writes \<open>busy_text\<close>, and \<open>deserialize\<close> reads it back with the song
  Queued.
\<close>

theorem round_trip_counterexample:
  "setItem STORE_NAME busy_value Map.empty STORE_NAME = Some busy_text
   \<and> getItem STORE_NAME (setItem STORE_NAME busy_value Map.empty) = Inr (calm_value, [])
   \<and> state_downloads busy_value = [(key movie, movie), (key song, downloading_song)]
   \<and> state_downloads calm_value = [(key movie, movie), (key song, song)]
   \<and> status downloading_song = Downloading
   \<and> status song = Queued"
proof -
  have a: "setItem STORE_NAME busy_value Map.empty STORE_NAME = Some busy_text"
    by (simp add: setItem_def stringify_busy_value)
  have c: "state_downloads busy_value = [(key movie, movie), (key song, downloading_song)]"
    "state_downloads calm_value = [(key movie, movie), (key song, song)]"
    by (simp_all add: busy_value_def calm_value_def)
  have d: "status downloading_song = Downloading" "status song = Queued"
    by (simp_all add: downloading_song_def song_def new_DownloadModel_def)
  from a have "getItem STORE_NAME (setItem STORE_NAME busy_value Map.empty)
      = deserialize (Some busy_text)"
    by (simp add: getItem_def)
  with a c d show ?thesis
    by (simp add: deserialize_busy_text)
qed

text \<open>
  C2, amended (round trip). For every value to store whose Map holds each key once, what
  \<open>setItem\<close> writes under a name is read back by \<open>getItem\<close> (that is, by
  \<open>deserialize\<close>) without an error and without a diagnostic: the version is the one
  written, the pairs have the same keys in the same order, and each record is the one
  written, except that a record written as Downloading is read back as Queued. When no
  record is Downloading, the value read back is the value written.
\<close>

theorem round_trip:
  assumes "distinct_keys (state_downloads v)"
  shows "getItem name (setItem name v storage)
           = Inr (\<lparr>state_downloads = map (\<lambda>(k, d). (k, rehydrated d)) (state_downloads v),
                   version = version v\<rparr>, [])
       \<and> map fst (map (\<lambda>(k, d). (k, rehydrated d)) (state_downloads v))
           = map fst (state_downloads v)
       \<and> ((\<forall>e \<in> set (state_downloads v). status (snd e) \<noteq> Downloading) \<longrightarrow>
            getItem name (setItem name v storage) = Inr (v, []))"
proof -
  have "map (\<lambda>(k, d). (k, rehydrated d)) (state_downloads v) = state_downloads v"
    if "\<forall>e \<in> set (state_downloads v). status (snd e) \<noteq> Downloading"
    using that by (rule map_rehydrated_id)
  with getItem_setItem [OF assms, of name storage] show ?thesis
    by (auto simp: case_prod_beta)
qed

text \<open>
  Writing and reading the value with the downloading song, and the value with no
  download in progress.
\<close>

theorem round_trip_witness:
  "distinct_keys (state_downloads busy_value)
   \<and> getItem STORE_NAME (setItem STORE_NAME busy_value Map.empty) = Inr (calm_value, [])
   \<and> map fst (state_downloads calm_value) = map fst (state_downloads busy_value)
   \<and> distinct_keys (state_downloads calm_value)
   \<and> status movie \<noteq> Downloading \<and> status song \<noteq> Downloading
   \<and> getItem STORE_NAME (setItem STORE_NAME calm_value Map.empty) = Inr (calm_value, [])"
proof -
  have c: "state_downloads calm_value = [(key movie, movie), (key song, song)]"
    "version calm_value = Some 0"
    "state_downloads busy_value = [(key movie, movie), (key song, downloading_song)]"
    "version busy_value = Some 0"
    by (simp_all add: calm_value_def busy_value_def)
  have dc: "distinct_keys (state_downloads calm_value)"
    using keys_differ by (simp add: c distinct_keys_def)
  have st: "status movie \<noteq> Downloading" "status song \<noteq> Downloading"
    by (simp_all add: movie_def song_def new_DownloadModel_def)
  have cv: "calm_value = \<lparr>state_downloads = [(key movie, movie), (key song, song)],
      version = Some 0\<rparr>"
    by (simp add: calm_value_def)
  from round_trip [OF distinct_busy_value, of STORE_NAME Map.empty]
    round_trip [OF dc, of STORE_NAME Map.empty]
  show ?thesis
    using distinct_busy_value dc st
    by (simp add: c cv rehydrated_examples)
qed

text \<open>
  C3 (rehydration downgrade). Let a stored text hold the entries \<open>before\<close>, then the
  entry \<open>obj\<close> under the key \<open>k\<close>, then \<open>after\<close>, where \<open>obj\<close> passes the test of
  line 63 and no later entry has the key \<open>k\<close>. Then \<open>deserialize\<close> returns, and the
  record under \<open>k\<close> is \<open>load_model obj\<close>, whose status is Queued when the entry's
  status is Downloading, Complete when the entry has no status and \<open>isComplete\<close> is true,
  and the entry's status when it has another one.
\<close>

theorem rehydration_downgrade:
  assumes "stored_entries s = Some (before @ (k, obj) # after)"
    and "\<not> invalid obj"
    and "k \<notin> fst ` set after"
  shows "\<exists>v out. deserialize (Some s) = Inr (v, out)
         \<and> map_of (state_downloads v) k = Some (load_model obj)
         \<and> (sd_status obj = Some Downloading \<longrightarrow> status (load_model obj) = Queued)
         \<and> (sd_status obj = None \<and> sd_isComplete obj = Some True \<longrightarrow>
              status (load_model obj) = Complete)
         \<and> (\<forall>st. sd_status obj = Some st \<and> st \<noteq> Downloading \<longrightarrow>
              status (load_model obj) = st)"
proof -
  from deserialize_stored [OF assms(1)] obtain ver out where
    d: "deserialize (Some s)
          = Inr (\<lparr>state_downloads = fold deserialize_entry (before @ (k, obj) # after) [],
                  version = ver\<rparr>, out)"
    by blast
  have "map_of (fold deserialize_entry (before @ (k, obj) # after) []) k
      = Some (load_model obj)"
    using map_of_loaded_last [OF assms(2,3), of before]
    by (simp only: map_of_deserialized)
  moreover have "sd_status obj = Some Downloading \<longrightarrow> status (load_model obj) = Queued"
    "sd_status obj = None \<and> sd_isComplete obj = Some True \<longrightarrow> status (load_model obj) = Complete"
    "\<forall>st. sd_status obj = Some st \<and> st \<noteq> Downloading \<longrightarrow> status (load_model obj) = st"
    by (simp_all add: load_model_def new_DownloadModel_def)
  ultimately show ?thesis
    using d by simp
qed

text \<open>
  The sample text: the entry \<open>a\<close> was Downloading and loads as Queued, the entry
  \<open>c\<close> has \<open>isComplete\<close> only and loads as Complete.
\<close>

theorem rehydration_downgrade_witness:
  "stored_entries sample_text
     = Some [(js ''a'', entry_a), (js ''b'', entry_b), (js ''c'', entry_c)]
   \<and> \<not> invalid entry_a
   \<and> js ''a'' \<notin> fst ` set [(js ''b'', entry_b), (js ''c'', entry_c)]
   \<and> sd_status entry_a = Some Downloading
   \<and> (\<exists>v out. deserialize (Some sample_text) = Inr (v, out)
         \<and> map_of (state_downloads v) (js ''a'') = Some (load_model entry_a)
         \<and> status (load_model entry_a) = Queued)
   \<and> \<not> invalid entry_c
   \<and> sd_status entry_c = None \<and> sd_isComplete entry_c = Some True
   \<and> (\<exists>v out. deserialize (Some sample_text) = Inr (v, out)
         \<and> map_of (state_downloads v) (js ''c'') = Some (load_model entry_c)
         \<and> status (load_model entry_c) = Complete)"
proof -
  have a: "stored_entries sample_text
      = Some ([] @ (js ''a'', entry_a) # [(js ''b'', entry_b), (js ''c'', entry_c)])"
    and c: "stored_entries sample_text
      = Some ([(js ''a'', entry_a), (js ''b'', entry_b)] @ (js ''c'', entry_c) # [])"
    by (simp_all add: sample_entries)
  have ka: "js ''a'' \<notin> fst ` set [(js ''b'', entry_b), (js ''c'', entry_c)]"
    using sample_keys by simp
  have kc: "js ''c'' \<notin> fst ` set []" by simp
  have sa: "sd_status entry_a = Some Downloading"
    and sc: "sd_status entry_c = None \<and> sd_isComplete entry_c = Some True"
    by (simp_all add: entry_a_def entry_c_def)
  from rehydration_downgrade [OF a sample_loaded(1) ka] sa
    rehydration_downgrade [OF c sample_loaded(3) kc] sc
  show ?thesis
    using sample_entries ka sample_loaded by simp
qed










text \<open>
  C8 (canPlay). For an entry as in C3, the record under its key has \<open>canPlay\<close> equal
  to the entry's \<open>canPlay\<close> when it has one, and true when it has none.
\<close>

theorem canPlay_default:
  assumes "stored_entries s = Some (before @ (k, obj) # after)"
    and "\<not> invalid obj"
    and "k \<notin> fst ` set after"
  shows "\<exists>v out. deserialize (Some s) = Inr (v, out)
         \<and> map_of (state_downloads v) k = Some (load_model obj)
         \<and> canPlay (load_model obj) = (case sd_canPlay obj of Some b \<Rightarrow> b | None \<Rightarrow> True)"
proof -
  from deserialize_stored [OF assms(1)] obtain ver out where
    d: "deserialize (Some s)
          = Inr (\<lparr>state_downloads = fold deserialize_entry (before @ (k, obj) # after) [],
                  version = ver\<rparr>, out)"
    by blast
  have "map_of (fold deserialize_entry (before @ (k, obj) # after) []) k
      = Some (load_model obj)"
    using map_of_loaded_last [OF assms(2,3), of before]
    by (simp only: map_of_deserialized)
  moreover have "canPlay (load_model obj) = (case sd_canPlay obj of Some b \<Rightarrow> b | None \<Rightarrow> True)"
    by (simp add: load_model_def Let_def)
  ultimately show ?thesis
    using d by simp
qed

text \<open>
  The sample text: the entry \<open>a\<close> has no \<open>canPlay\<close> and loads as playable, the
  entry \<open>c\<close> has \<open>canPlay: false\<close>.
\<close>

theorem canPlay_default_witness:
  "stored_entries sample_text
     = Some [(js ''a'', entry_a), (js ''b'', entry_b), (js ''c'', entry_c)]
   \<and> \<not> invalid entry_a
   \<and> js ''a'' \<notin> fst ` set [(js ''b'', entry_b), (js ''c'', entry_c)]
   \<and> sd_canPlay entry_a = None
   \<and> (\<exists>v out. deserialize (Some sample_text) = Inr (v, out)
         \<and> map_of (state_downloads v) (js ''a'') = Some (load_model entry_a)
         \<and> canPlay (load_model entry_a) = True)
   \<and> \<not> invalid entry_c
   \<and> sd_canPlay entry_c = Some False
   \<and> (\<exists>v out. deserialize (Some sample_text) = Inr (v, out)
         \<and> map_of (state_downloads v) (js ''c'') = Some (load_model entry_c)
         \<and> canPlay (load_model entry_c) = False)"
proof -
  have a: "stored_entries sample_text
      = Some ([] @ (js ''a'', entry_a) # [(js ''b'', entry_b), (js ''c'', entry_c)])"
    and c: "stored_entries sample_text
      = Some ([(js ''a'', entry_a), (js ''b'', entry_b)] @ (js ''c'', entry_c) # [])"
    by (simp_all add: sample_entries)
  have ka: "js ''a'' \<notin> fst ` set [(js ''b'', entry_b), (js ''c'', entry_c)]"
    using sample_keys by simp
  have kc: "js ''c'' \<notin> fst ` set []" by simp
  have sa: "sd_canPlay entry_a = None"
    and sc: "sd_canPlay entry_c = Some False"
    by (simp_all add: entry_a_def entry_c_def)
  from canPlay_default [OF a sample_loaded(1) ka] sa
    canPlay_default [OF c sample_loaded(3) kc] sc
  show ?thesis
    using sample_entries ka sample_loaded by simp
qed

text \<open>
  C4 as stated fails: on a text that is not JSON, \<open>JSON.parse\<close> (line 58) throws and
  nothing in \<open>deserialize\<close> catches it.
\<close>

theorem corrupt_text_counterexample:
  "JSON_parse (js ''{'') = None \<and> deserialize (Some (js ''{'')) = Inl SyntaxError"
  by (simp add: deserialize_def deserialize_js_def JSON_parse_def parse_value.simps js_def
      skip_ws_def is_ws_def)

text \<open>
  C4, amended. \<open>deserialize\<close> returns the empty initial state for \<open>null\<close> and for
  the empty string; for every other string that is not parseable as JSON it raises the
  SyntaxError of \<open>JSON.parse\<close>.
\<close>

theorem corrupt_text_raises:
  "deserialize None = Inr (\<lparr>state_downloads = [], version = None\<rparr>, [])
   \<and> deserialize (Some []) = Inr (\<lparr>state_downloads = [], version = None\<rparr>, [])
   \<and> (s \<noteq> [] \<and> JSON_parse s = None \<longrightarrow> deserialize (Some s) = Inl SyntaxError)"
  by (simp add: deserialize_def deserialize_js_def typed_value_def optional_def)

text \<open>
  The text \<open>[1,\<close> is not JSON.
\<close>

theorem corrupt_text_raises_witness:
  "deserialize None = Inr (\<lparr>state_downloads = [], version = None\<rparr>, [])
   \<and> deserialize (Some []) = Inr (\<lparr>state_downloads = [], version = None\<rparr>, [])
   \<and> js ''[1,'' \<noteq> [] \<and> JSON_parse (js ''[1,'') = None
   \<and> deserialize (Some (js ''[1,'')) = Inl SyntaxError"
proof -
  have "JSON_parse (js ''[1,'') = None"
    by code_simp
  moreover have "js ''[1,'' \<noteq> []"
    by (simp add: js_def)
  ultimately show ?thesis
    using corrupt_text_raises [of "js ''[1,''"] by simp
qed

end
